theory Spec2Isabelle
  imports Main "HOL-Library.AList"
begin

section \<open>Python strings\<close>

text \<open>
  Configuration texts are modelled as \<^typ>\<open>string\<close>: a list of characters with code
  points below 256. The source reads its files as text; the embedding covers the texts
  whose code points lie in that range.
\<close>

definition py_isspace :: "char \<Rightarrow> bool" where
  \<comment> \<open>\<open>str.isspace\<close> and the class \<open>\\s\<close> of \<open>re\<close> on code points below 256\<close>
  "py_isspace c = (let n = (of_char c :: nat) in
     (9 \<le> n \<and> n \<le> 13) \<or> (28 \<le> n \<and> n \<le> 32) \<or> n = 133 \<or> n = 160)"

definition py_isdigit :: "char \<Rightarrow> bool" where
  \<comment> \<open>the class \<open>\\d\<close> of \<open>re\<close> on code points below 256\<close>
  "py_isdigit c = (let n = (of_char c :: nat) in 48 \<le> n \<and> n \<le> 57)"

definition py_lower_char :: "char \<Rightarrow> char" where
  "py_lower_char c = (let n = (of_char c :: nat) in
     if (65 \<le> n \<and> n \<le> 90) \<or> (192 \<le> n \<and> n \<le> 222 \<and> n \<noteq> 215)
     then char_of (n + 32) else c)"

definition py_lower :: "string \<Rightarrow> string" where
  \<comment> \<open>\<open>str.lower()\<close>\<close>
  "py_lower s = map py_lower_char s"

primrec startswith :: "string \<Rightarrow> string \<Rightarrow> bool" where
  \<comment> \<open>\<open>s.startswith(p)\<close>, written \<open>startswith p s\<close>\<close>
  "startswith [] s = True"
| "startswith (p # ps) s = (case s of [] \<Rightarrow> False | x # xs \<Rightarrow> p = x \<and> startswith ps xs)"

primrec py_in :: "string \<Rightarrow> string \<Rightarrow> bool" where
  \<comment> \<open>\<open>sub in s\<close>\<close>
  "py_in sub [] = (sub = [])"
| "py_in sub (x # xs) = (startswith sub (x # xs) \<or> py_in sub xs)"

definition py_strip :: "string \<Rightarrow> string" where
  \<comment> \<open>\<open>str.strip()\<close>\<close>
  "py_strip s = rev (dropWhile py_isspace (rev (dropWhile py_isspace s)))"

section \<open>Regular expressions of the \<open>re\<close> module\<close>

text \<open>
  The patterns of the source use literals, the classes \<open>\\s\<close>, \<open>\\S\<close>, \<open>\\d\<close> and \<open>.\<close>,
  greedy and lazy repetition, alternation, capturing groups, lookahead and \<open>$\<close>.
  \<open>re\<close> is a backtracking matcher: \<open>rmatch\<close> lists every way a pattern can match at
  the start of the remaining input, in the order in which the matcher tries them, so
  that the head of the list is the match \<open>re\<close> reports.
\<close>

record flags =
  ignorecase :: bool
  dotall :: bool
  multiline :: bool

datatype atom = Chr char | Space | NonSpace | Digit | Dot

datatype regex =
    Atom atom
  | Eps
  | Seq regex regex
  | Alt regex regex
  | Star bool regex
  | Group nat regex
  | Look regex
  | Eol

type_synonym groups = "nat \<rightharpoonup> string"
type_synonym mstate = "string \<times> groups"

fun amatch :: "flags \<Rightarrow> atom \<Rightarrow> char \<Rightarrow> bool" where
  "amatch f (Chr a) c = (if ignorecase f then py_lower_char a = py_lower_char c else a = c)"
| "amatch f Space c = py_isspace c"
| "amatch f NonSpace c = (\<not> py_isspace c)"
| "amatch f Digit c = py_isdigit c"
| "amatch f Dot c = (dotall f \<or> c \<noteq> CHR 0x0A)"

function rmatch :: "flags \<Rightarrow> regex \<Rightarrow> mstate \<Rightarrow> mstate list" where
  "rmatch f (Atom a) st =
     (case fst st of [] \<Rightarrow> [] | c # cs \<Rightarrow> if amatch f a c then [(cs, snd st)] else [])"
| "rmatch f Eps st = [st]"
| "rmatch f (Seq r1 r2) st = concat (map (rmatch f r2) (rmatch f r1 st))"
| "rmatch f (Alt r1 r2) st = rmatch f r1 st @ rmatch f r2 st"
| "rmatch f (Star greedy r) st =
     (let more = concat (map (\<lambda>st'. if length (fst st') < length (fst st)
                                      then rmatch f (Star greedy r) st' else [])
                             (rmatch f r st))
      in if greedy then more @ [st] else st # more)"
| "rmatch f (Group n r) st =
     map (\<lambda>st'. (fst st', (snd st')(n \<mapsto> take (length (fst st) - length (fst st')) (fst st))))
         (rmatch f r st)"
| "rmatch f (Look r) st =
     (case rmatch f r st of [] \<Rightarrow> [] | st' # _ \<Rightarrow> [(fst st, snd st')])"
| "rmatch f Eol st =
     (if fst st = [] \<or> fst st = [CHR 0x0A] \<or> (multiline f \<and> hd (fst st) = CHR 0x0A)
      then [st] else [])"
  by pat_completeness auto
termination
  by (relation "measures [\<lambda>(f, r, st). size r, \<lambda>(f, r, st). length (fst st)]") auto

definition lit :: "string \<Rightarrow> regex" where
  \<comment> \<open>a run of literal characters\<close>
  "lit s = foldr (\<lambda>c r. Seq (Atom (Chr c)) r) s Eps"

definition cat :: "regex list \<Rightarrow> regex" where
  "cat rs = foldr Seq rs Eps"

definition plus :: "regex \<Rightarrow> regex" where
  \<comment> \<open>\<open>r+\<close>\<close>
  "plus r = Seq r (Star True r)"

definition plus_lazy :: "regex \<Rightarrow> regex" where
  \<comment> \<open>\<open>r+?\<close>\<close>
  "plus_lazy r = Seq r (Star False r)"

definition opt :: "regex \<Rightarrow> regex" where
  \<comment> \<open>\<open>r?\<close>\<close>
  "opt r = Alt r Eps"

record match =
  m_text :: string    \<comment> \<open>group 0: the text matched\<close>
  m_rest :: string    \<comment> \<open>the input after the match\<close>
  m_groups :: groups

definition mk_match :: "string \<Rightarrow> mstate \<Rightarrow> match" where
  "mk_match s st =
     \<lparr>m_text = take (length s - length (fst st)) s, m_rest = fst st, m_groups = snd st\<rparr>"

primrec first_of :: "'a list \<Rightarrow> 'a option" where
  "first_of [] = None"
| "first_of (x # xs) = Some x"

definition match_at :: "flags \<Rightarrow> regex \<Rightarrow> string \<Rightarrow> match option" where
  \<comment> \<open>the match the matcher reports at the start of \<open>s\<close>, if any\<close>
  "match_at f r s = map_option (mk_match s) (first_of (rmatch f r (s, Map.empty)))"

fun re_search :: "flags \<Rightarrow> regex \<Rightarrow> string \<Rightarrow> match option" where
  \<comment> \<open>\<open>re.search\<close>: the match at the leftmost position that has one\<close>
  "re_search f r [] = match_at f r []"
| "re_search f r (c # cs) =
     (case match_at f r (c # cs) of None \<Rightarrow> re_search f r cs | Some m \<Rightarrow> Some m)"

definition group :: "match \<Rightarrow> nat \<Rightarrow> string" where
  \<comment> \<open>\<open>m.group(n)\<close> for \<open>n > 0\<close>; a group that took no part in the match reads as the empty
      string, as in the results of \<open>re.findall\<close>\<close>
  "group m n = (case m_groups m n of None \<Rightarrow> [] | Some g \<Rightarrow> g)"

function re_finditer :: "flags \<Rightarrow> regex \<Rightarrow> string \<Rightarrow> match list" where
  \<comment> \<open>the successive non-overlapping matches, left to right; after an empty match the
      scan moves on by one character\<close>
  "re_finditer f r s =
     (case re_search f r s of
        None \<Rightarrow> []
      | Some m \<Rightarrow>
          m # (if length (m_rest m) < length s then re_finditer f r (m_rest m)
               else (case m_rest m of [] \<Rightarrow> [] | _ # cs \<Rightarrow>
                       if length cs < length s then re_finditer f r cs else [])))"
  by pat_completeness auto
termination
  by (relation "measure (\<lambda>(f, r, s). length s)") auto

definition findall1 :: "flags \<Rightarrow> regex \<Rightarrow> string \<Rightarrow> string list" where
  \<comment> \<open>\<open>re.findall\<close> for a pattern with exactly one group: the list of its group 1\<close>
  "findall1 f r s = map (\<lambda>m. group m 1) (re_finditer f r s)"

definition findall3 :: "flags \<Rightarrow> regex \<Rightarrow> string \<Rightarrow> (string \<times> string \<times> string) list" where
  "findall3 f r s = map (\<lambda>m. (group m 1, group m 2, group m 3)) (re_finditer f r s)"

definition findall4 ::
  "flags \<Rightarrow> regex \<Rightarrow> string \<Rightarrow> (string \<times> string \<times> string \<times> string) list" where
  "findall4 f r s = map (\<lambda>m. (group m 1, group m 2, group m 3, group m 4)) (re_finditer f r s)"

definition NL :: char where "NL = CHR 0x0A"

definition no_flags :: flags where
  "no_flags = \<lparr>ignorecase = False, dotall = False, multiline = False\<rparr>"

definition IGNORECASE :: flags where
  "IGNORECASE = \<lparr>ignorecase = True, dotall = False, multiline = False\<rparr>"

definition DOTALL_IGNORECASE :: flags where
  "DOTALL_IGNORECASE = \<lparr>ignorecase = True, dotall = True, multiline = False\<rparr>"

definition MULTILINE :: flags where
  "MULTILINE = \<lparr>ignorecase = False, dotall = False, multiline = True\<rparr>"

subsection \<open>The first match, step by step\<close>

text \<open>
  \<open>first_k\<close> is the first way to match a sequence of patterns still to be matched, the
  head of what \<open>rmatch\<close> lists for their concatenation. A frame \<open>FG n s\<close> closes group
  \<open>n\<close>, opened when the remaining input was \<open>s\<close>. The matcher computes the first match
  directly, one character at a time, as the lemmas on \<open>first_k\<close> below do.
\<close>

datatype frame = FR regex | FG nat string

fun run :: "flags \<Rightarrow> frame list \<Rightarrow> mstate \<Rightarrow> mstate list" where
  "run f [] st = [st]"
| "run f (FR r # k) st = concat (map (run f k) (rmatch f r st))"
| "run f (FG n s # k) st =
     run f k (fst st, (snd st)(n \<mapsto> take (length s - length (fst st)) s))"

definition first_k :: "flags \<Rightarrow> frame list \<Rightarrow> mstate \<Rightarrow> mstate option" where
  "first_k f k st = first_of (run f k st)"

section \<open>The patterns of the two extractors\<close>

definition dotted_quad :: regex where
  \<comment> \<open>\<open>\\d+\\.\\d+\\.\\d+\\.\\d+\<close>\<close>
  "dotted_quad = cat [plus (Atom Digit), lit ''.'', plus (Atom Digit), lit ''.'',
                      plus (Atom Digit), lit ''.'', plus (Atom Digit)]"

definition spaces :: regex where
  \<comment> \<open>\<open>\\s+\<close>\<close>
  "spaces = plus (Atom Space)"

definition token :: regex where
  \<comment> \<open>\<open>\\S+\<close>\<close>
  "token = plus (Atom NonSpace)"

definition digits :: regex where
  \<comment> \<open>\<open>\\d+\<close>\<close>
  "digits = plus (Atom Digit)"

definition rx_router_hostname :: regex where
  \<comment> \<open>\<open>hostname\\s+(\\S+)\<close>\<close>
  "rx_router_hostname = cat [lit ''hostname'', spaces, Group 1 token]"

definition rx_router_model :: regex where
  \<comment> \<open>\<open>(\\d{4})\\s+(?:router|series)\<close>\<close>
  "rx_router_model =
     cat [Group 1 (cat [Atom Digit, Atom Digit, Atom Digit, Atom Digit]), spaces,
          Alt (lit ''router'') (lit ''series'')]"

definition rx_router_interface_blocks :: regex where
  \<comment> \<open>\<open>(interface\\s+\\S+.*?(?=!\\s*$|\\ninterface\\s+\\S+|\\nend))\<close>\<close>
  "rx_router_interface_blocks =
     Group 1 (cat [lit ''interface'', spaces, token, Star False (Atom Dot),
       Look (Alt (cat [lit ''!'', Star True (Atom Space), Eol])
            (Alt (cat [Atom (Chr NL), lit ''interface'', spaces, token])
                 (cat [Atom (Chr NL), lit ''end''])))])"

definition rx_router_interface_name :: regex where
  \<comment> \<open>\<open>interface\\s+(\\S+)\<close>\<close>
  "rx_router_interface_name = cat [lit ''interface'', spaces, Group 1 token]"

definition rx_shutdown :: regex where
  \<comment> \<open>\<open>shutdown\<close>\<close>
  "rx_shutdown = lit ''shutdown''"

definition rx_router_description :: regex where
  \<comment> \<open>\<open>description\\s+(.+?)(?=\\n\\S|\\n\\n|$)\<close>\<close>
  "rx_router_description =
     cat [lit ''description'', spaces, Group 1 (plus_lazy (Atom Dot)),
          Look (Alt (cat [Atom (Chr NL), Atom NonSpace])
               (Alt (cat [Atom (Chr NL), Atom (Chr NL)]) Eol))]"

definition rx_ip_address :: regex where
  \<comment> \<open>\<open>ip\\s+address\\s+(\\d+\\.\\d+\\.\\d+\\.\\d+)\\s+(\\d+\\.\\d+\\.\\d+\\.\\d+)\<close>\<close>
  "rx_ip_address =
     cat [lit ''ip'', spaces, lit ''address'', spaces, Group 1 dotted_quad, spaces,
          Group 2 dotted_quad]"

definition rx_ip_address_secondary :: regex where
  \<comment> \<open>the same pattern followed by \<open>\\s+secondary\<close>\<close>
  "rx_ip_address_secondary =
     cat [lit ''ip'', spaces, lit ''address'', spaces, Group 1 dotted_quad, spaces,
          Group 2 dotted_quad, spaces, lit ''secondary'']"

definition rx_bandwidth :: regex where
  \<comment> \<open>\<open>bandwidth\\s+(\\d+)\<close>\<close>
  "rx_bandwidth = cat [lit ''bandwidth'', spaces, Group 1 digits]"

definition rx_duplex :: regex where
  \<comment> \<open>\<open>duplex\\s+(\\S+)\<close>\<close>
  "rx_duplex = cat [lit ''duplex'', spaces, Group 1 token]"

definition rx_speed :: regex where
  \<comment> \<open>\<open>speed\\s+(\\d+)\<close>\<close>
  "rx_speed = cat [lit ''speed'', spaces, Group 1 digits]"

definition rx_routing_block_end :: regex where
  \<comment> \<open>\<open>(?=!\\s*$|\\nrouter\\s+\\S+)\<close>\<close>
  "rx_routing_block_end =
     Look (Alt (cat [lit ''!'', Star True (Atom Space), Eol])
               (cat [Atom (Chr NL), lit ''router'', spaces, token]))"

definition rx_ospf_blocks :: regex where
  \<comment> \<open>\<open>router\\s+ospf\\s+(\\d+).*?(?=!\\s*$|\\nrouter\\s+\\S+)\<close>\<close>
  "rx_ospf_blocks =
     cat [lit ''router'', spaces, lit ''ospf'', spaces, Group 1 digits, Star False (Atom Dot),
          rx_routing_block_end]"

definition rx_ospf_process :: regex where
  \<comment> \<open>\<open>router\\s+ospf\\s+(\\d+)\<close>\<close>
  "rx_ospf_process = cat [lit ''router'', spaces, lit ''ospf'', spaces, Group 1 digits]"

definition rx_ospf_network :: regex where
  \<comment> \<open>\<open>network\\s+(\\d+\\.\\d+\\.\\d+\\.\\d+)\\s+(\\d+\\.\\d+\\.\\d+\\.\\d+)\\s+area\\s+(\\d+)\<close>\<close>
  "rx_ospf_network =
     cat [lit ''network'', spaces, Group 1 dotted_quad, spaces, Group 2 dotted_quad, spaces,
          lit ''area'', spaces, Group 3 digits]"

definition rx_bgp_blocks :: regex where
  \<comment> \<open>\<open>router\\s+bgp\\s+(\\d+).*?(?=!\\s*$|\\nrouter\\s+\\S+)\<close>\<close>
  "rx_bgp_blocks =
     cat [lit ''router'', spaces, lit ''bgp'', spaces, Group 1 digits, Star False (Atom Dot),
          rx_routing_block_end]"

definition rx_bgp_asn :: regex where
  \<comment> \<open>\<open>router\\s+bgp\\s+(\\d+)\<close>\<close>
  "rx_bgp_asn = cat [lit ''router'', spaces, lit ''bgp'', spaces, Group 1 digits]"

definition rx_static_routes :: regex where
  \<comment> \<open>\<open>ip\\s+route\\s+(\\d+\\.\\d+\\.\\d+\\.\\d+)\\s+(\\d+\\.\\d+\\.\\d+\\.\\d+)\\s+(\\S+)(?:\\s+(\\d+))?\<close>\<close>
  "rx_static_routes =
     cat [lit ''ip'', spaces, lit ''route'', spaces, Group 1 dotted_quad, spaces,
          Group 2 dotted_quad, spaces, Group 3 token, opt (cat [spaces, Group 4 digits])]"

definition rx_default_routes :: regex where
  \<comment> \<open>\<open>ip\\s+route\\s+0\\.0\\.0\\.0\\s+0\\.0\\.0\\.0\\s+(\\S+)\<close>\<close>
  "rx_default_routes =
     cat [lit ''ip'', spaces, lit ''route'', spaces, lit ''0.0.0.0'', spaces, lit ''0.0.0.0'',
          spaces, Group 1 token]"

definition rx_switch_hostname :: regex where
  \<comment> \<open>\<open>hostname (\\S+)\<close>\<close>
  "rx_switch_hostname = cat [lit ''hostname '', Group 1 token]"

definition rx_switch_interface_blocks :: regex where
  \<comment> \<open>\<open>(interface \\S+\\n(?: .*\\n)*?!)\<close>\<close>
  "rx_switch_interface_blocks =
     Group 1 (cat [lit ''interface '', token, Atom (Chr NL),
                   Star False (cat [lit '' '', Star True (Atom Dot), Atom (Chr NL)]), lit ''!''])"

definition rx_switch_interface_name :: regex where
  \<comment> \<open>\<open>interface (\\S+)\<close>\<close>
  "rx_switch_interface_name = cat [lit ''interface '', Group 1 token]"

definition rx_switch_description :: regex where
  \<comment> \<open>\<open>description (.+)$\<close>\<close>
  "rx_switch_description = cat [lit ''description '', Group 1 (plus (Atom Dot)), Eol]"

definition rx_switchport_mode :: regex where
  \<comment> \<open>\<open>switchport mode (\\S+)\<close>\<close>
  "rx_switchport_mode = cat [lit ''switchport mode '', Group 1 token]"

definition rx_switchport_access_vlan :: regex where
  \<comment> \<open>\<open>switchport access vlan (\\S+)\<close>\<close>
  "rx_switchport_access_vlan = cat [lit ''switchport access vlan '', Group 1 token]"

section \<open>The device model (device.py)\<close>

text \<open>
  The dictionary of one interface has a fixed set of keys and is read as a record; a
  key that a dictionary does not have reads as \<open>None\<close>, which is what \<open>props.get\<close>
  returns for it. \<open>interfaces\<close> is the dictionary from interface names to these, kept
  as an association list in insertion order.
\<close>

record interface =
  description :: "string option"
  shutdown :: bool
  mode :: "string option"
  access_vlan :: "string option"
  ip_address :: "string option"
  subnet_mask :: "string option"
  bandwidth :: "string option"
  duplex :: "string option"
  speed :: "string option"
  encapsulation :: "string option"
  vrf :: "string option"
  secondary_ips :: "(string \<times> string) list option"

record network_device =
  hostname :: string
  vendor :: string
  interfaces :: "(string \<times> interface) list"
  model :: string

record switch = network_device +
  vlans :: "string set"
  stp_mode :: "string option"

type_synonym route = "(string \<times> string) list"

record router = network_device +
  routing_protocols :: "string list"
  routes :: "route list"
  bgp_asn :: "string option"
  ospf_process_id :: "string option"

datatype device = Switch switch | Router router

definition Switch_init :: "string \<Rightarrow> switch" where
  \<comment> \<open>\<open>Switch(hostname)\<close>\<close>
  "Switch_init h = \<lparr>hostname = h, vendor = ''Cisco'', interfaces = [], model = ''Unknown'',
                     vlans = {}, stp_mode = None\<rparr>"

definition Router_init :: "string \<Rightarrow> router" where
  \<comment> \<open>\<open>Router(hostname)\<close>\<close>
  "Router_init h = \<lparr>hostname = h, vendor = ''Cisco'', interfaces = [], model = ''Unknown'',
                     routing_protocols = [], routes = [], bgp_asn = None,
                     ospf_process_id = None\<rparr>"

fun dev_hostname :: "device \<Rightarrow> string" where
  "dev_hostname (Switch d) = hostname d"
| "dev_hostname (Router d) = hostname d"

fun dev_interfaces :: "device \<Rightarrow> (string \<times> interface) list" where
  "dev_interfaces (Switch d) = interfaces d"
| "dev_interfaces (Router d) = interfaces d"

fun type_name :: "device \<Rightarrow> string" where
  \<comment> \<open>\<open>type(device).__name__\<close>\<close>
  "type_name (Switch d) = ''Switch''"
| "type_name (Router d) = ''Router''"

definition switch_indicators :: "string list" where
  "switch_indicators =
     [''switchport'', ''spanning-tree'', ''vtp mode'', ''vlan database'',
      ''show mac address-table'']"

definition router_indicators :: "string list" where
  "router_indicators =
     [''router ospf'', ''router bgp'', ''router eigrp'', ''ip route '', ''interface serial'',
      ''ppp authentication'', ''frame-relay'', ''ip nat'', ''ipsec'', ''crypto map'']"

definition score :: "string list \<Rightarrow> string \<Rightarrow> nat" where
  \<comment> \<open>\<open>sum(1 for indicator in indicators if indicator in text)\<close>\<close>
  "score indicators text = length (filter (\<lambda>indicator. py_in indicator text) indicators)"

definition py_any :: "('a \<Rightarrow> bool) \<Rightarrow> 'a list \<Rightarrow> bool" where
  "py_any p xs = list_ex p xs"

definition detect_device_type :: "string \<Rightarrow> string" where
  "detect_device_type config_text =
     (let config_text_lower = py_lower config_text;
          switch_score = score switch_indicators config_text_lower;
          router_score = score router_indicators config_text_lower;
          has_routing_protocol =
            py_any (\<lambda>x. py_in x config_text_lower) [''ospf'', ''bgp'', ''eigrp'', ''rip''];
          has_switch_commands =
            py_any (\<lambda>x. py_in x config_text_lower) [''vlan'', ''switchport'']
      in if router_score > switch_score then ''router''
         else if switch_score > router_score then ''switch''
         else if has_routing_protocol \<and> \<not> has_switch_commands then ''router''
         else if has_switch_commands \<and> \<not> has_routing_protocol then ''switch''
         else if py_in ''interface serial'' config_text_lower
                 \<or> py_in ''interface tunnel'' config_text_lower then ''router''
         else if py_in ''interface vlan'' config_text_lower
                 \<or> py_in ''interface port-channel'' config_text_lower then ''switch''
         else ''unknown'')"

section \<open>The switch extractor (switch_parser.py)\<close>

definition empty_interface :: interface where
  \<comment> \<open>a dictionary whose keys all hold \<open>None\<close> (and \<open>False\<close> for \<open>shutdown\<close>)\<close>
  "empty_interface =
     \<lparr>description = None, shutdown = False, mode = None, access_vlan = None,
      ip_address = None, subnet_mask = None, bandwidth = None, duplex = None, speed = None,
      encapsulation = None, vrf = None, secondary_ips = None\<rparr>"

definition switch_interface_fields :: "string \<Rightarrow> interface" where
  \<comment> \<open>the dictionary that the loop body builds for one block\<close>
  "switch_interface_fields block =
     (let props = empty_interface\<lparr>shutdown := py_in ''shutdown'' block\<rparr>;
          props = (case re_search MULTILINE rx_switch_description block of
                     None \<Rightarrow> props
                   | Some desc_match \<Rightarrow> props\<lparr>description := Some (py_strip (group desc_match 1))\<rparr>);
          props = (case re_search no_flags rx_switchport_mode block of
                     None \<Rightarrow> props
                   | Some mode_match \<Rightarrow> props\<lparr>mode := Some (group mode_match 1)\<rparr>);
          props = (case re_search no_flags rx_switchport_access_vlan block of
                     None \<Rightarrow> props
                   | Some vlan_match \<Rightarrow> props\<lparr>access_vlan := Some (group vlan_match 1)\<rparr>)
      in props)"

definition parse_switch_interface :: "string \<Rightarrow> switch \<Rightarrow> switch" where
  \<comment> \<open>the body of the loop over the interface blocks\<close>
  "parse_switch_interface block switch_device =
     (case re_search no_flags rx_switch_interface_name block of
        None \<Rightarrow> switch_device
      | Some intf_name_match \<Rightarrow>
          (let intf_name = group intf_name_match 1;
               props = switch_interface_fields block;
               d = switch_device\<lparr>interfaces := AList.update intf_name props (interfaces switch_device)\<rparr>
           in case access_vlan props of
                None \<Rightarrow> d
              | Some vlan_id \<Rightarrow> d\<lparr>vlans := insert vlan_id (vlans d)\<rparr>))"

definition parse_switch_config :: "string \<Rightarrow> switch \<Rightarrow> switch" where
  "parse_switch_config config_text switch_device =
     (let d = (case re_search no_flags rx_switch_hostname config_text of
                 None \<Rightarrow> switch_device
               | Some hostname_match \<Rightarrow> switch_device\<lparr>hostname := group hostname_match 1\<rparr>);
          interface_blocks = findall1 no_flags rx_switch_interface_blocks config_text
      in fold parse_switch_interface interface_blocks d)"

section \<open>The router extractor (router_parser.py)\<close>

definition router_interface_fields :: "string \<Rightarrow> interface" where
  \<comment> \<open>the dictionary that the loop body builds for one block\<close>
  "router_interface_fields block =
     (let props = empty_interface;
          props = (case re_search IGNORECASE rx_shutdown block of
                     None \<Rightarrow> props
                   | Some shutdown_match \<Rightarrow> props\<lparr>shutdown := True\<rparr>);
          props = (case re_search DOTALL_IGNORECASE rx_router_description block of
                     None \<Rightarrow> props
                   | Some desc_match \<Rightarrow> props\<lparr>description := Some (py_strip (group desc_match 1))\<rparr>);
          props = (case re_search IGNORECASE rx_ip_address block of
                     None \<Rightarrow> props
                   | Some ip_match \<Rightarrow>
                       props\<lparr>ip_address := Some (group ip_match 1),
                             subnet_mask := Some (group ip_match 2)\<rparr>);
          props = (case re_search IGNORECASE rx_ip_address_secondary block of
                     None \<Rightarrow> props
                   | Some sec_ip_match \<Rightarrow>
                       props\<lparr>secondary_ips :=
                         Some ((case secondary_ips props of None \<Rightarrow> [] | Some ips \<Rightarrow> ips)
                               @ [(group sec_ip_match 1, group sec_ip_match 2)])\<rparr>);
          props = (case re_search IGNORECASE rx_bandwidth block of
                     None \<Rightarrow> props
                   | Some bw_match \<Rightarrow> props\<lparr>bandwidth := Some (group bw_match 1)\<rparr>);
          props = (case re_search IGNORECASE rx_duplex block of
                     None \<Rightarrow> props
                   | Some duplex_match \<Rightarrow> props\<lparr>duplex := Some (group duplex_match 1)\<rparr>);
          props = (case re_search IGNORECASE rx_speed block of
                     None \<Rightarrow> props
                   | Some speed_match \<Rightarrow> props\<lparr>speed := Some (group speed_match 1)\<rparr>)
      in props)"

definition parse_router_interface :: "string \<Rightarrow> router \<Rightarrow> router" where
  \<comment> \<open>the body of the loop over the interface blocks\<close>
  "parse_router_interface block router_device =
     (case re_search IGNORECASE rx_router_interface_name block of
        None \<Rightarrow> router_device
      | Some intf_name_match \<Rightarrow>
          router_device\<lparr>interfaces :=
            AList.update (group intf_name_match 1) (router_interface_fields block)
              (interfaces router_device)\<rparr>)"

definition ospf_route :: "string \<times> string \<times> string \<Rightarrow> route" where
  "ospf_route = (\<lambda>(network, mask, area).
     [(''network'', network), (''mask'', mask), (''type'', ''ospf''), (''area'', area)])"

definition parse_ospf_block :: "string \<Rightarrow> router \<Rightarrow> router" where
  \<comment> \<open>the body of the loop over \<open>ospf_blocks\<close>\<close>
  "parse_ospf_block ospf_block router_device =
     (case re_search IGNORECASE rx_ospf_process ospf_block of
        None \<Rightarrow> router_device
      | Some process_id \<Rightarrow>
          (let d = router_device\<lparr>ospf_process_id := Some (group process_id 1),
                     routing_protocols :=
                       routing_protocols router_device @ [''ospf_'' @ group process_id 1]\<rparr>;
               network_matches = findall3 IGNORECASE rx_ospf_network ospf_block
           in fold (\<lambda>m d. d\<lparr>routes := routes d @ [ospf_route m]\<rparr>) network_matches d))"

definition parse_bgp_block :: "string \<Rightarrow> router \<Rightarrow> router" where
  \<comment> \<open>the body of the loop over \<open>bgp_blocks\<close>\<close>
  "parse_bgp_block bgp_block router_device =
     (case re_search IGNORECASE rx_bgp_asn bgp_block of
        None \<Rightarrow> router_device
      | Some asn_match \<Rightarrow>
          router_device\<lparr>bgp_asn := Some (group asn_match 1),
            routing_protocols :=
              routing_protocols router_device @ [''bgp_'' @ group asn_match 1]\<rparr>)"

definition static_route :: "string \<times> string \<times> string \<times> string \<Rightarrow> route" where
  "static_route = (\<lambda>(network, mask, next_hop, admin_distance).
     (let route_info = [(''network'', network), (''mask'', mask), (''next_hop'', next_hop),
                        (''type'', ''static'')]
      in if admin_distance \<noteq> [] then AList.update ''admin_distance'' admin_distance route_info
         else route_info))"

definition default_route :: "string \<Rightarrow> route" where
  "default_route next_hop =
     [(''network'', ''0.0.0.0''), (''mask'', ''0.0.0.0''), (''next_hop'', next_hop),
      (''type'', ''static_default'')]"

definition parse_router_config :: "string \<Rightarrow> router \<Rightarrow> router" where
  "parse_router_config config_text router_device =
     (let d = (case re_search IGNORECASE rx_router_hostname config_text of
                 None \<Rightarrow> router_device
               | Some hostname_match \<Rightarrow>
                   router_device\<lparr>hostname := py_strip (group hostname_match 1)\<rparr>);
          d = (case re_search IGNORECASE rx_router_model config_text of
                 None \<Rightarrow> d
               | Some model_match \<Rightarrow> d\<lparr>model := ''Cisco '' @ group model_match 1\<rparr>);
          interface_blocks = findall1 DOTALL_IGNORECASE rx_router_interface_blocks config_text;
          d = fold parse_router_interface interface_blocks d;
          ospf_blocks = findall1 DOTALL_IGNORECASE rx_ospf_blocks config_text;
          d = fold parse_ospf_block ospf_blocks d;
          bgp_blocks = findall1 DOTALL_IGNORECASE rx_bgp_blocks config_text;
          d = fold parse_bgp_block bgp_blocks d;
          static_routes = findall4 IGNORECASE rx_static_routes config_text;
          d = fold (\<lambda>m d. d\<lparr>routes := routes d @ [static_route m]\<rparr>) static_routes d;
          default_routes = findall1 IGNORECASE rx_default_routes config_text;
          d = fold (\<lambda>next_hop d. d\<lparr>routes := routes d @ [default_route next_hop]\<rparr>)
                default_routes d
      in d)"

section \<open>IPv4 addresses and networks (the \<open>ipaddress\<close> module)\<close>

unbundle bit_operations_syntax

text \<open>
  A constructor of \<open>ipaddress\<close> that raises \<open>ValueError\<close> (or one of its subclasses
  \<open>AddressValueError\<close> and \<open>NetmaskValueError\<close>) returns \<open>None\<close> here.
\<close>

primrec py_split :: "char \<Rightarrow> string \<Rightarrow> string list" where
  \<comment> \<open>\<open>s.split(sep)\<close> for a separator of one character\<close>
  "py_split sep [] = [[]]"
| "py_split sep (c # cs) =
     (if c = sep then [] # py_split sep cs
      else (case py_split sep cs of [] \<Rightarrow> [[c]] | p # ps \<Rightarrow> (c # p) # ps))"

definition is_ascii_digits :: "string \<Rightarrow> bool" where
  \<comment> \<open>\<open>s.isascii() and s.isdigit()\<close>\<close>
  "is_ascii_digits s = (s \<noteq> [] \<and> list_all (\<lambda>c. c \<in> set ''0123456789'') s)"

definition digit_value :: "char \<Rightarrow> int" where
  "digit_value c = of_char c - 48"

definition py_int :: "string \<Rightarrow> int" where
  \<comment> \<open>\<open>int(s, 10)\<close> on a string of decimal digits\<close>
  "py_int s = foldl (\<lambda>n c. 10 * n + digit_value c) 0 s"

definition parse_octet :: "string \<Rightarrow> int option" where
  "parse_octet octet_str =
     (if octet_str = [] then None
      else if \<not> is_ascii_digits octet_str then None
      else if length octet_str > 3 then None
      else if octet_str \<noteq> ''0'' \<and> hd octet_str = CHR ''0'' then None
      else (let octet_int = py_int octet_str in
            if octet_int > 255 then None else Some octet_int))"

definition ip_int_from_string :: "string \<Rightarrow> int option" where
  "ip_int_from_string ip_str =
     (if ip_str = [] then None
      else (let octets = py_split (CHR ''.'') ip_str in
            if length octets \<noteq> 4 then None
            else (case those (map parse_octet octets) of
                    None \<Rightarrow> None
                  | Some bs \<Rightarrow> Some (foldl (\<lambda>n b. 256 * n + b) 0 bs))))"

definition IPv4Address :: "string \<Rightarrow> int option" where
  \<comment> \<open>\<open>ipaddress.IPv4Address(s)\<close>: the address as an integer\<close>
  "IPv4Address address =
     (if CHR ''/'' \<in> set address then None else ip_int_from_string address)"

definition ALL_ONES :: int where
  "ALL_ONES = 2 ^ 32 - 1"

definition max_prefixlen :: nat where
  "max_prefixlen = 32"

fun trailing_zero_bits :: "int \<Rightarrow> nat \<Rightarrow> nat" where
  \<comment> \<open>the number of zero bits at the low end of \<open>number\<close>, looking at \<open>bits\<close> bits:
      \<open>min(bits, (~number & (number - 1)).bit_length())\<close>\<close>
  "trailing_zero_bits number 0 = 0"
| "trailing_zero_bits number (Suc bits) =
     (if odd number then 0 else Suc (trailing_zero_bits (number div 2) bits))"

definition count_righthand_zero_bits :: "int \<Rightarrow> nat \<Rightarrow> nat" where
  "count_righthand_zero_bits number bits =
     (if number = 0 then bits else trailing_zero_bits number bits)"

definition prefix_from_ip_int :: "int \<Rightarrow> nat option" where
  "prefix_from_ip_int ip_int =
     (let trailing_zeroes = count_righthand_zero_bits ip_int max_prefixlen;
          prefixlen = max_prefixlen - trailing_zeroes;
          leading_ones = drop_bit trailing_zeroes ip_int;
          all_ones = 2 ^ prefixlen - 1
      in if leading_ones \<noteq> all_ones then None else Some prefixlen)"

definition prefix_from_prefix_string :: "string \<Rightarrow> nat option" where
  "prefix_from_prefix_string prefixlen_str =
     (if \<not> is_ascii_digits prefixlen_str then None
      else (let prefixlen = py_int prefixlen_str in
            if 0 \<le> prefixlen \<and> prefixlen \<le> int max_prefixlen then Some (nat prefixlen)
            else None))"

definition prefix_from_ip_string :: "string \<Rightarrow> nat option" where
  "prefix_from_ip_string ip_str =
     (case ip_int_from_string ip_str of
        None \<Rightarrow> None
      | Some ip_int \<Rightarrow>
          (case prefix_from_ip_int ip_int of
             Some prefixlen \<Rightarrow> Some prefixlen
           | None \<Rightarrow> prefix_from_ip_int (ip_int XOR ALL_ONES)))"

definition ip_int_from_prefix :: "nat \<Rightarrow> int" where
  "ip_int_from_prefix prefixlen = ALL_ONES XOR drop_bit prefixlen ALL_ONES"

definition make_netmask :: "string \<Rightarrow> (int \<times> nat) option" where
  \<comment> \<open>the netmask and the prefix length\<close>
  "make_netmask arg =
     (case (case prefix_from_prefix_string arg of
              Some prefixlen \<Rightarrow> Some prefixlen
            | None \<Rightarrow> prefix_from_ip_string arg) of
        None \<Rightarrow> None
      | Some prefixlen \<Rightarrow> Some (ip_int_from_prefix prefixlen, prefixlen))"

record ipv4network =
  network_address :: int
  netmask :: int
  prefixlen :: nat

definition IPv4Network :: "string \<Rightarrow> ipv4network option" where
  \<comment> \<open>\<open>ipaddress.IPv4Network(address, strict=False)\<close>\<close>
  "IPv4Network address =
     (let parts = py_split (CHR ''/'') address in
      if length parts > 2 then None
      else (case IPv4Address (hd parts) of
              None \<Rightarrow> None
            | Some packed \<Rightarrow>
                (case (if length parts > 1 then make_netmask (parts ! 1)
                       else Some (ip_int_from_prefix max_prefixlen, max_prefixlen)) of
                   None \<Rightarrow> None
                 | Some (netmask_int, plen) \<Rightarrow>
                     Some \<lparr>network_address = packed AND netmask_int, netmask = netmask_int,
                           prefixlen = plen\<rparr>)))"

definition contains :: "ipv4network \<Rightarrow> int \<Rightarrow> bool" where
  \<comment> \<open>\<open>address in network\<close>\<close>
  "contains network address = (address AND netmask network = network_address network)"

definition digit_char :: "int \<Rightarrow> char" where
  "digit_char d = char_of (48 + d)"

function str_int :: "int \<Rightarrow> string" where
  \<comment> \<open>\<open>str(n)\<close> for \<open>n \<ge> 0\<close>\<close>
  "str_int n = (if n < 10 then [digit_char n] else str_int (n div 10) @ [digit_char (n mod 10)])"
  by pat_completeness auto
termination
  by (relation "measure nat") auto

definition str_address :: "int \<Rightarrow> string" where
  \<comment> \<open>\<open>str(IPv4Address)\<close>: the four octets, most significant first\<close>
  "str_address n =
     str_int (drop_bit 24 n AND 255) @ ''.'' @ str_int (drop_bit 16 n AND 255) @ ''.'' @
     str_int (drop_bit 8 n AND 255) @ ''.'' @ str_int (n AND 255)"

definition str_network :: "ipv4network \<Rightarrow> string" where
  \<comment> \<open>\<open>str(IPv4Network)\<close>\<close>
  "str_network network =
     str_address (network_address network) @ ''/'' @ str_int (int (prefixlen network))"

section \<open>Undirected graphs (the \<open>networkx.Graph\<close> class)\<close>

text \<open>
  A \<open>Graph\<close> keeps a dictionary from each node to its attributes and a dictionary from
  each node to the dictionary of its neighbours; the latter holds the attributes of
  the edge, one object stored under both directions.
\<close>

datatype node_value = NStr string | NDev device

type_synonym node_data = "(string \<times> node_value) list"
type_synonym edge_data = "(string \<times> string) list"

record graph =
  g_node :: "(string \<times> node_data) list"
  g_adj :: "(string \<times> (string \<times> edge_data) list) list"

definition dict_update :: "('k \<times> 'v) list \<Rightarrow> ('k \<times> 'v) list \<Rightarrow> ('k \<times> 'v) list" where
  \<comment> \<open>\<open>d.update(other)\<close>\<close>
  "dict_update d other = fold (\<lambda>kv. AList.update (fst kv) (snd kv)) other d"

definition dict_get :: "('k \<times> 'v) list \<Rightarrow> 'k \<Rightarrow> 'v \<Rightarrow> 'v" where
  \<comment> \<open>\<open>d.get(k, default)\<close>\<close>
  "dict_get d k dflt = (case map_of d k of None \<Rightarrow> dflt | Some v \<Rightarrow> v)"

definition dict_has :: "('k \<times> 'v) list \<Rightarrow> 'k \<Rightarrow> bool" where
  \<comment> \<open>\<open>k in d\<close>\<close>
  "dict_has d k = (map_of d k \<noteq> None)"

definition nx_Graph :: graph where
  \<comment> \<open>\<open>nx.Graph()\<close>\<close>
  "nx_Graph = \<lparr>g_node = [], g_adj = []\<rparr>"

definition add_node :: "graph \<Rightarrow> string \<Rightarrow> node_data \<Rightarrow> graph" where
  "add_node g n attr =
     (if \<not> dict_has (g_node g) n
      then g\<lparr>g_adj := AList.update n [] (g_adj g),
             g_node := AList.update n (dict_update [] attr) (g_node g)\<rparr>
      else g\<lparr>g_node := AList.update n (dict_update (dict_get (g_node g) n []) attr) (g_node g)\<rparr>)"

definition touch_node :: "graph \<Rightarrow> string \<Rightarrow> graph" where
  \<comment> \<open>the start of \<open>add_edge\<close>: an end point that is not a node yet becomes one\<close>
  "touch_node g u =
     (if \<not> dict_has (g_node g) u
      then g\<lparr>g_adj := AList.update u [] (g_adj g), g_node := AList.update u [] (g_node g)\<rparr>
      else g)"

definition add_edge :: "graph \<Rightarrow> string \<Rightarrow> string \<Rightarrow> edge_data \<Rightarrow> graph" where
  "add_edge g0 u v attr =
     (let g = touch_node (touch_node g0 u) v;
          datadict = dict_update (dict_get (dict_get (g_adj g) u []) v []) attr;
          adj = AList.update u (AList.update v datadict (dict_get (g_adj g) u [])) (g_adj g);
          adj = AList.update v (AList.update u datadict (dict_get adj v [])) adj
      in g\<lparr>g_adj := adj\<rparr>)"

definition has_edge :: "graph \<Rightarrow> string \<Rightarrow> string \<Rightarrow> bool" where
  "has_edge g u v = (case map_of (g_adj g) u of None \<Rightarrow> False | Some nbrs \<Rightarrow> dict_has nbrs v)"

definition get_edge_data :: "graph \<Rightarrow> string \<Rightarrow> string \<Rightarrow> edge_data option" where
  "get_edge_data g u v = (case map_of (g_adj g) u of None \<Rightarrow> None | Some nbrs \<Rightarrow> map_of nbrs v)"

fun edges_from :: "(string \<times> (string \<times> edge_data) list) list \<Rightarrow> string list \<Rightarrow> (string \<times> string) list" where
  \<comment> \<open>the iteration of \<open>G.edges\<close>: each edge once, from the end point that comes first\<close>
  "edges_from [] seen = []"
| "edges_from ((n, nbrs) # rest) seen =
     map (\<lambda>nbr. (n, nbr)) (filter (\<lambda>nbr. nbr \<notin> set seen) (map fst nbrs))
     @ edges_from rest (n # seen)"

definition g_edges :: "graph \<Rightarrow> (string \<times> string) list" where
  \<comment> \<open>\<open>list(G.edges)\<close>\<close>
  "g_edges g = edges_from (g_adj g) []"

definition g_nodes :: "graph \<Rightarrow> string list" where
  \<comment> \<open>\<open>list(G.nodes)\<close>\<close>
  "g_nodes g = map fst (g_node g)"

section \<open>Topology inference (topology.py)\<close>

text \<open>
  \<open>build_topology\<close> works on the list of device objects, a graph and a counter. The
  state of the run holds all three, so that what the run does to the devices is part
  of its result.
\<close>

record topo_state =
  st_devices :: "device list"
  st_graph :: graph
  st_links_found :: nat

definition add_device_node :: "device \<Rightarrow> topo_state \<Rightarrow> topo_state" where
  \<comment> \<open>the body of the loop that adds the nodes\<close>
  "add_device_node device st =
     st\<lparr>st_graph := add_node (st_graph st) (dev_hostname device)
            [(''type'', NStr (type_name device)), (''device_obj'', NDev device)]\<rparr>"

fun link_interfaces ::
  "ipv4network \<Rightarrow> device \<Rightarrow> string \<Rightarrow> device \<Rightarrow> (string \<times> interface) list \<Rightarrow> topo_state \<Rightarrow> topo_state" where
  \<comment> \<open>the loop over the interfaces of \<open>device2\<close>, left at the first link found\<close>
  "link_interfaces network1 device1 intf1 device2 [] st = st"
| "link_interfaces network1 device1 intf1 device2 ((intf2, props2) # rest) st =
     (case ip_address props2 of
        None \<Rightarrow> link_interfaces network1 device1 intf1 device2 rest st
      | Some ip2 \<Rightarrow>
          if ip2 = [] then link_interfaces network1 device1 intf1 device2 rest st
          else (case IPv4Address ip2 of
                  None \<Rightarrow> link_interfaces network1 device1 intf1 device2 rest st
                | Some address2 \<Rightarrow>
                    if contains network1 address2
                    then st\<lparr>st_graph :=
                              add_edge (st_graph st) (dev_hostname device1) (dev_hostname device2)
                                [(''interface1'', intf1), (''interface2'', intf2),
                                 (''network'', str_network network1)],
                            st_links_found := st_links_found st + 1\<rparr>
                    else link_interfaces network1 device1 intf1 device2 rest st))"

fun link_devices ::
  "ipv4network \<Rightarrow> nat \<Rightarrow> device \<Rightarrow> string \<Rightarrow> nat \<Rightarrow> device list \<Rightarrow> topo_state \<Rightarrow> topo_state" where
  \<comment> \<open>the loop \<open>for j, device2 in enumerate(device_list)\<close>, from index \<open>j\<close> on\<close>
  "link_devices network1 i device1 intf1 j [] st = st"
| "link_devices network1 i device1 intf1 j (device2 # rest) st =
     link_devices network1 i device1 intf1 (Suc j) rest
       (if i \<noteq> j
        then link_interfaces network1 device1 intf1 device2 (dev_interfaces device2) st
        else st)"

fun scan_interfaces ::
  "nat \<Rightarrow> device \<Rightarrow> (string \<times> interface) list \<Rightarrow> topo_state \<Rightarrow> topo_state" where
  \<comment> \<open>the loop over the interfaces of \<open>device1\<close>\<close>
  "scan_interfaces i device1 [] st = st"
| "scan_interfaces i device1 ((intf1, props1) # rest) st =
     scan_interfaces i device1 rest
       (case ip_address props1 of
          None \<Rightarrow> st
        | Some ip1 \<Rightarrow>
            (case subnet_mask props1 of
               None \<Rightarrow> st
             | Some mask1 \<Rightarrow>
                 if ip1 = [] \<or> mask1 = [] then st
                 else (case IPv4Network (ip1 @ ''/'' @ mask1) of
                         None \<Rightarrow> st
                       | Some network1 \<Rightarrow>
                           link_devices network1 i device1 intf1 0 (st_devices st) st)))"

fun subnet_loop :: "nat \<Rightarrow> device list \<Rightarrow> topo_state \<Rightarrow> topo_state" where
  \<comment> \<open>the loop \<open>for i, device1 in enumerate(device_list)\<close>, from index \<open>i\<close> on\<close>
  "subnet_loop i [] st = st"
| "subnet_loop i (device1 # rest) st =
     subnet_loop (Suc i) rest (scan_interfaces i device1 (dev_interfaces device1) st)"

fun link_by_description :: "device \<Rightarrow> string \<Rightarrow> device list \<Rightarrow> topo_state \<Rightarrow> topo_state" where
  \<comment> \<open>the loop over \<open>other_device\<close>, left at the first link added\<close>
  "link_by_description device desc [] st = st"
| "link_by_description device desc (other_device # rest) st =
     (if py_in (py_lower (dev_hostname other_device)) desc
         \<and> dev_hostname other_device \<noteq> dev_hostname device
         \<and> \<not> has_edge (st_graph st) (dev_hostname device) (dev_hostname other_device)
      then st\<lparr>st_graph :=
                add_edge (st_graph st) (dev_hostname device) (dev_hostname other_device) []\<rparr>
      else link_by_description device desc rest st)"

fun describe_interfaces :: "device \<Rightarrow> (string \<times> interface) list \<Rightarrow> topo_state \<Rightarrow> topo_state" where
  "describe_interfaces device [] st = st"
| "describe_interfaces device ((intf_name, props) # rest) st =
     describe_interfaces device rest
       (case description props of
          None \<Rightarrow> st
        | Some d \<Rightarrow>
            if d = [] then st
            else link_by_description device (py_lower d) (st_devices st) st)"

definition description_step :: "device \<Rightarrow> topo_state \<Rightarrow> topo_state" where
  "description_step device st = describe_interfaces device (dev_interfaces device) st"

definition initial_state :: "device list \<Rightarrow> topo_state" where
  "initial_state device_list =
     \<lparr>st_devices = device_list, st_graph = nx_Graph, st_links_found = 0\<rparr>"

definition add_nodes :: "topo_state \<Rightarrow> topo_state" where
  "add_nodes st = fold add_device_node (st_devices st) st"

definition subnet_pass :: "topo_state \<Rightarrow> topo_state" where
  "subnet_pass st = subnet_loop 0 (st_devices st) st"

definition description_pass :: "topo_state \<Rightarrow> topo_state" where
  "description_pass st = fold description_step (st_devices st) st"

definition build_topology_state :: "device list \<Rightarrow> topo_state" where
  "build_topology_state device_list =
     description_pass (subnet_pass (add_nodes (initial_state device_list)))"

definition build_topology :: "device list \<Rightarrow> graph" where
  "build_topology device_list = st_graph (build_topology_state device_list)"

section \<open>Notions of the specification\<close>

definition occurs_ci :: "string \<Rightarrow> string \<Rightarrow> bool" where
  \<comment> \<open>\<open>word\<close>, in lower case, occurs in \<open>text\<close> when case is ignored\<close>
  "occurs_ci word text = (\<exists>pre w suf. text = pre @ w @ suf \<and> py_lower w = word)"

section \<open>Inputs of the worked examples\<close>

definition worked_example :: string where
  \<comment> \<open>the router configuration of the specification's example\<close>
  "worked_example =
     ''hostname R1\<newline>interface Serial0/0\<newline> ip address 10.1.1.1 255.255.255.252\<newline>!\<newline>router ospf 1\<newline> network 10.1.1.0 0.0.0.3 area 0\<newline>!''"

section \<open>Fresh devices (config_parser.py)\<close>

text \<open>
  \<open>parse_any_config\<close> creates a device object and hands it to the extractor, which
  fills it in place. Objects live in a heap, a list indexed by address; a new object
  takes the next address.
\<close>

type_synonym 'a heap = "'a list"

definition new_object :: "'a \<Rightarrow> 'a heap \<Rightarrow> nat \<times> 'a heap" where
  "new_object x h = (length h, h @ [x])"

definition extract_router :: "string \<Rightarrow> router heap \<Rightarrow> nat \<times> router heap" where
  \<comment> \<open>\<open>device_obj = Router(); parse_router_config(config_text, device_obj)\<close>\<close>
  "extract_router config_text h =
     (let (device_obj, h1) = new_object (Router_init ''Unknown'') h
      in (device_obj, h1[device_obj := parse_router_config config_text (h1 ! device_obj)]))"

definition extract_switch :: "string \<Rightarrow> switch heap \<Rightarrow> nat \<times> switch heap" where
  \<comment> \<open>\<open>device_obj = Switch(); parse_switch_config(config_text, device_obj)\<close>\<close>
  "extract_switch config_text h =
     (let (device_obj, h1) = new_object (Switch_init ''Unknown'') h
      in (device_obj, h1[device_obj := parse_switch_config config_text (h1 ! device_obj)]))"

section \<open>Well-formed graphs\<close>

definition graph_ok :: "graph \<Rightarrow> bool" where
  \<comment> \<open>the dictionaries of a graph are consistent: no node twice, no neighbour twice, and the same nodes in both\<close>
  "graph_ok g =
     (distinct (map fst (g_adj g)) \<and>
      list_all (\<lambda>entry. distinct (map fst (snd entry))) (g_adj g) \<and>
      list_all (\<lambda>entry. dict_has (g_node g) (fst entry)) (g_adj g) \<and>
      list_all (\<lambda>entry. dict_has (g_adj g) (fst entry)) (g_node g))"

definition symmetric :: "graph \<Rightarrow> bool" where
  \<comment> \<open>an edge is stored under both directions with the same attributes\<close>
  "symmetric g = (\<forall>u v. get_edge_data g u v = get_edge_data g v u)"

definition loop_free :: "graph \<Rightarrow> bool" where
  \<comment> \<open>no node is its own neighbour\<close>
  "loop_free g = (\<forall>u. get_edge_data g u u = None)"

definition new_data :: "graph \<Rightarrow> string \<Rightarrow> string \<Rightarrow> edge_data \<Rightarrow> edge_data" where
  \<comment> \<open>the attributes that \<open>add_edge\<close> stores: those of the edge so far, updated\<close>
  "new_data g u v attr =
     dict_update (case get_edge_data g u v of None \<Rightarrow> [] | Some d \<Rightarrow> d) attr"

definition lookup2 :: "('a \<times> ('b \<times> 'c) list) list \<Rightarrow> 'a \<Rightarrow> 'b \<Rightarrow> 'c option" where
  \<comment> \<open>the entry of a dictionary of dictionaries\<close>
  "lookup2 adj x y = (case map_of adj x of None \<Rightarrow> None | Some nbrs \<Rightarrow> map_of nbrs y)"

definition subnet_keys :: "graph \<Rightarrow> bool" where
  \<comment> \<open>every edge carries the metadata of the subnet pass\<close>
  "subnet_keys g =
     (\<forall>u v d. get_edge_data g u v = Some d \<longrightarrow>
        map fst d = [''interface1'', ''interface2'', ''network''])"

definition graph_inv :: "graph \<Rightarrow> bool" where
  "graph_inv g = (graph_ok g \<and> symmetric g \<and> loop_free g)"

definition subnet_inv :: "topo_state \<Rightarrow> bool" where
  "subnet_inv st = (graph_inv (st_graph st) \<and> subnet_keys (st_graph st))"

definition keeps_edges :: "graph \<Rightarrow> graph \<Rightarrow> bool" where
  \<comment> \<open>every edge of the first graph is an edge of the second, with the same attributes\<close>
  "keeps_edges g g' = (\<forall>u v d. get_edge_data g u v = Some d \<longrightarrow> get_edge_data g' u v = Some d)"

definition descr_inv :: "topo_state \<Rightarrow> topo_state \<Rightarrow> bool" where
  "descr_inv st st' = (graph_inv (st_graph st') \<and> keeps_edges (st_graph st) (st_graph st'))"

definition subnet_graph :: "device list \<Rightarrow> graph" where
  \<comment> \<open>the graph as the subnet pass leaves it\<close>
  "subnet_graph device_list = st_graph (subnet_pass (add_nodes (initial_state device_list)))"

definition pair_of :: "string \<times> string \<Rightarrow> string set" where
  \<comment> \<open>the unordered pair of the end points of an edge\<close>
  "pair_of e = {fst e, snd e}"

definition example_A :: device where
  "example_A = Router ((Router_init ''RA'')\<lparr>interfaces :=
     [(''Gi0/0'', empty_interface\<lparr>description := Some ''to RB'',
         ip_address := Some ''10.0.0.1'', subnet_mask := Some ''255.255.255.252''\<rparr>)]\<rparr>)"

definition example_B :: device where
  "example_B = Router ((Router_init ''RB'')\<lparr>interfaces :=
     [(''Gi0/1'', empty_interface\<lparr>description := Some ''link to RA'',
         ip_address := Some ''10.0.0.2''\<rparr>)]\<rparr>)"




section \<open>Matches, as the specification words them\<close>

fun lit_prefix :: "flags \<Rightarrow> string \<Rightarrow> string \<Rightarrow> bool" where
  \<comment> \<open>a run of literal characters matches at the start of the input\<close>
  "lit_prefix f [] s = True"
| "lit_prefix f (a # w) [] = False"
| "lit_prefix f (a # w) (c # cs) = (amatch f (Chr a) c \<and> lit_prefix f w cs)"

fun leftmost :: "(string \<Rightarrow> 'a option) \<Rightarrow> string \<Rightarrow> 'a option" where
  \<comment> \<open>what \<open>p\<close> finds at the leftmost position of the text where it finds something\<close>
  "leftmost p [] = p []"
| "leftmost p (c # cs) = (case p (c # cs) of None \<Rightarrow> leftmost p cs | Some x \<Rightarrow> Some x)"

definition after_word :: "bool \<Rightarrow> string \<Rightarrow> string \<Rightarrow> string option" where
  \<comment> \<open>the text after the word \<open>w\<close>, if it starts with it (with \<open>ci\<close>: in any case)\<close>
  "after_word ci w s =
     (if (if ci then py_lower (take (length w) s) else take (length w) s) = w
      then Some (drop (length w) s) else None)"

definition next_token :: "string \<Rightarrow> string option" where
  \<comment> \<open>a token: the longest run of characters that are not whitespace, not empty\<close>
  "next_token rest =
     (let tok = takeWhile (\<lambda>c. \<not> py_isspace c) rest in if tok \<noteq> [] then Some tok else None)"

definition token_after_spaces :: "string \<Rightarrow> string option" where
  \<comment> \<open>the token after one or more whitespace characters\<close>
  "token_after_spaces rest =
     (if rest \<noteq> [] \<and> py_isspace (hd rest) then next_token (dropWhile py_isspace rest) else None)"

definition hostname_here_ci :: "string \<Rightarrow> string option" where
  \<comment> \<open>\<open>hostname <token>\<close> at the start of \<open>s\<close>, case ignored, any whitespace between\<close>
  "hostname_here_ci s =
     (case after_word True ''hostname'' s of None \<Rightarrow> None | Some rest \<Rightarrow> token_after_spaces rest)"

definition hostname_here :: "string \<Rightarrow> string option" where
  \<comment> \<open>\<open>hostname <token>\<close> at the start of \<open>s\<close>, as written, one space between\<close>
  "hostname_here s =
     (case after_word False ''hostname '' s of None \<Rightarrow> None | Some rest \<Rightarrow> next_token rest)"

section \<open>The block that an extractor reads for an interface\<close>

definition router_blocks :: "string \<Rightarrow> string list" where
  \<comment> \<open>\<open>interface_blocks\<close> of \<open>parse_router_config\<close>\<close>
  "router_blocks config_text = findall1 DOTALL_IGNORECASE rx_router_interface_blocks config_text"







definition overrun_example :: string where
  \<comment> \<open>an interface stanza followed by a stanza of another kind\<close>
  "overrun_example = ''interface Gi0/0\<newline>!\<newline>line vty 0\<newline> shutdown\<newline>!''"

section \<open>Facts about strings\<close>

declare rmatch.simps [simp del]
declare re_finditer.simps [simp del]
declare str_int.simps [simp del]

lemma py_lower_char_Char:
  "py_lower_char (Char b0 b1 b2 b3 b4 b5 b6 b7) =
     (if b6 \<and> \<not> b5 \<and>
         (if b7 then \<not> (b0 \<and> b1 \<and> b2 \<and> b4)
          else (b0 \<or> b1 \<or> b2 \<or> b3 \<or> b4) \<and> \<not> (b4 \<and> b3 \<and> (b2 \<or> (b1 \<and> b0))))
      then Char b0 b1 b2 b3 b4 True b6 b7 else Char b0 b1 b2 b3 b4 b5 b6 b7)"
  by (cases b0; cases b1; cases b2; cases b3; cases b4; cases b5; cases b6; cases b7;
      simp add: py_lower_char_def char_of_def bit_Suc_0_iff)

lemma py_isspace_Char:
  "py_isspace (Char b0 b1 b2 b3 b4 b5 b6 b7) =
     (\<not> b6 \<and>
      (if b7 then \<not> b4 \<and> \<not> b3 \<and> \<not> b1 \<and> (b5 \<and> \<not> b2 \<and> \<not> b0 \<or> \<not> b5 \<and> b2 \<and> b0)
       else if b5 then \<not> b0 \<and> \<not> b1 \<and> \<not> b2 \<and> \<not> b3 \<and> \<not> b4
       else if b4 then b3 \<and> b2
       else b3 \<and> (if b2 then \<not> b1 else b0 \<or> b1)))"
  by (cases b0; cases b1; cases b2; cases b3; cases b4; cases b5; cases b6; cases b7;
      simp add: py_isspace_def)

lemma py_isdigit_Char:
  "py_isdigit (Char b0 b1 b2 b3 b4 b5 b6 b7) =
     (\<not> b7 \<and> \<not> b6 \<and> b5 \<and> b4 \<and> (b3 \<longrightarrow> \<not> b2 \<and> \<not> b1))"
  by (cases b0; cases b1; cases b2; cases b3; cases b4; cases b5; cases b6; cases b7;
      simp add: py_isdigit_def)

lemmas chr_eval = py_lower_char_Char py_isspace_Char py_isdigit_Char

lemma py_lower_char_idem: "py_lower_char (py_lower_char c) = py_lower_char c"
  by (cases c) (simp add: py_lower_char_Char)

lemma length_py_lower: "length (py_lower s) = length s"
  by (simp add: py_lower_def)

lemma py_lower_append: "py_lower (xs @ ys) = py_lower xs @ py_lower ys"
  by (simp add: py_lower_def)

lemma startswith_iff: "startswith p s \<longleftrightarrow> (\<exists>suf. s = p @ suf)"
  by (induction p arbitrary: s) (auto split: list.splits)

lemma py_in_iff: "py_in sub s \<longleftrightarrow> (\<exists>pre suf. s = pre @ sub @ suf)"
proof (induction s)
  case Nil
  then show ?case by auto
next
  case (Cons x xs)
  have "(\<exists>pre suf. x # xs = pre @ sub @ suf) \<longleftrightarrow>
        (\<exists>suf. x # xs = sub @ suf) \<or> (\<exists>pre suf. xs = pre @ sub @ suf)"
  proof
    assume "\<exists>pre suf. x # xs = pre @ sub @ suf"
    then obtain pre suf where e: "x # xs = pre @ sub @ suf" by blast
    show "(\<exists>suf. x # xs = sub @ suf) \<or> (\<exists>pre suf. xs = pre @ sub @ suf)"
    proof (cases pre)
      case Nil
      with e show ?thesis by auto
    next
      case (Cons p ps)
      with e have "xs = ps @ sub @ suf" by simp
      then show ?thesis by blast
    qed
  next
    assume "(\<exists>suf. x # xs = sub @ suf) \<or> (\<exists>pre suf. xs = pre @ sub @ suf)"
    then show "\<exists>pre suf. x # xs = pre @ sub @ suf"
    proof
      assume "\<exists>suf. x # xs = sub @ suf"
      then obtain suf where "x # xs = [] @ sub @ suf" by auto
      then show ?thesis by blast
    next
      assume "\<exists>pre suf. xs = pre @ sub @ suf"
      then obtain pre suf where "x # xs = (x # pre) @ sub @ suf" by auto
      then show ?thesis by blast
    qed
  qed
  with Cons show ?case by (simp add: startswith_iff)
qed

section \<open>The first match, computed\<close>

lemma first_of_append:
  "first_of (xs @ ys) = (case first_of xs of None \<Rightarrow> first_of ys | Some x \<Rightarrow> Some x)"
  by (cases xs) simp_all

lemma concat_map_concat_map:
  "concat (map g (concat (map h xs))) = concat (map (\<lambda>x. concat (map g (h x))) xs)"
  by (induction xs) simp_all

lemma concat_map_singleton: "concat (map (\<lambda>x. [x]) xs) = xs"
  by (induction xs) simp_all

lemma fk_Nil: "first_k f [] st = Some st"
  by (simp add: first_k_def)

lemma fk_Atom_Nil: "first_k f (FR (Atom a) # k) ([], G) = None"
  by (simp add: first_k_def rmatch.simps)

lemma fk_Atom_Cons:
  "first_k f (FR (Atom a) # k) (c # cs, G) = (if amatch f a c then first_k f k (cs, G) else None)"
  by (simp add: first_k_def rmatch.simps)

lemma fk_Eps: "first_k f (FR Eps # k) st = first_k f k st"
  by (simp add: first_k_def rmatch.simps)

lemma run_Seq: "run f (FR (Seq r1 r2) # k) st = run f (FR r1 # FR r2 # k) st"
  by (simp add: rmatch.simps concat_map_concat_map cong: map_cong)

lemma fk_Seq: "first_k f (FR (Seq r1 r2) # k) st = first_k f (FR r1 # FR r2 # k) st"
  by (simp only: first_k_def run_Seq)

lemma fk_Alt:
  "first_k f (FR (Alt r1 r2) # k) st =
     (case first_k f (FR r1 # k) st of None \<Rightarrow> first_k f (FR r2 # k) st | Some x \<Rightarrow> Some x)"
  unfolding first_k_def by (simp add: rmatch.simps first_of_append cong: option.case_cong)

lemma fk_Group: "first_k f (FR (Group n r) # k) (s, G) = first_k f (FR r # FG n s # k) (s, G)"
  unfolding first_k_def by (simp add: rmatch.simps comp_def cong: map_cong)

lemma fk_FG:
  "first_k f (FG n s # k) (s', G) = first_k f k (s', G(n \<mapsto> take (length s - length s') s))"
  by (simp add: first_k_def)

lemma run_single: "run f [FR r] st = rmatch f r st"
  by (simp add: concat_map_singleton cong: map_cong)

lemma fk_Look:
  "first_k f (FR (Look r) # k) (s, G) =
     (case first_k f [FR r] (s, G) of None \<Rightarrow> None | Some st' \<Rightarrow> first_k f k (s, snd st'))"
  unfolding first_k_def run_single
  by (cases "rmatch f r (s, G)") (simp_all add: rmatch.simps)

lemma fk_Eol_Nil: "first_k f (FR Eol # k) ([], G) = first_k f k ([], G)"
  by (simp add: first_k_def rmatch.simps)

lemma fk_Eol_Cons:
  "first_k f (FR Eol # k) (c # cs, G) =
     (if c = CHR 0x0A \<and> (cs = [] \<or> multiline f) then first_k f k (c # cs, G) else None)"
  unfolding first_k_def by (auto simp add: rmatch.simps)

lemma rmatch_Star_Atom_Nil: "rmatch f (Star g (Atom a)) ([], G) = [([], G)]"
  by (simp add: rmatch.simps)

lemma rmatch_Star_Atom_Cons:
  "rmatch f (Star g (Atom a)) (c # cs, G) =
     (if amatch f a c
      then (if g then rmatch f (Star g (Atom a)) (cs, G) @ [(c # cs, G)]
            else (c # cs, G) # rmatch f (Star g (Atom a)) (cs, G))
      else [(c # cs, G)])"
  by (subst rmatch.simps) (simp add: rmatch.simps(1))

lemma fk_Star_Nil: "first_k f (FR (Star g (Atom a)) # k) ([], G) = first_k f k ([], G)"
  by (simp add: first_k_def rmatch_Star_Atom_Nil)

lemma fk_Star_greedy:
  "first_k f (FR (Star True (Atom a)) # k) (c # cs, G) =
     (if amatch f a c
      then (case first_k f (FR (Star True (Atom a)) # k) (cs, G) of
              None \<Rightarrow> first_k f k (c # cs, G) | Some x \<Rightarrow> Some x)
      else first_k f k (c # cs, G))"
  unfolding first_k_def
  by (simp add: rmatch_Star_Atom_Cons first_of_append cong: option.case_cong)

lemma fk_Star_lazy:
  "first_k f (FR (Star False (Atom a)) # k) (c # cs, G) =
     (case first_k f k (c # cs, G) of
        None \<Rightarrow> if amatch f a c then first_k f (FR (Star False (Atom a)) # k) (cs, G) else None
      | Some x \<Rightarrow> Some x)"
  unfolding first_k_def
  by (simp add: rmatch_Star_Atom_Cons first_of_append cong: option.case_cong split: option.splits)

lemma match_at_fk: "match_at f r s = map_option (mk_match s) (first_k f [FR r] (s, Map.empty))"
  unfolding match_at_def first_k_def run_single ..

lemmas fk_eval = fk_Nil fk_Atom_Nil fk_Atom_Cons fk_Eps fk_Seq fk_Alt fk_Group fk_FG fk_Look
  fk_Eol_Nil fk_Eol_Cons fk_Star_Nil fk_Star_greedy fk_Star_lazy match_at_fk

lemmas rx_build = cat_def lit_def plus_def plus_lazy_def opt_def spaces_def token_def digits_def
  dotted_quad_def NL_def

lemmas flag_defs = no_flags_def IGNORECASE_def DOTALL_IGNORECASE_def MULTILINE_def

lemmas router_rx_defs = rx_router_hostname_def rx_router_model_def rx_router_interface_blocks_def
  rx_router_interface_name_def rx_shutdown_def rx_router_description_def rx_ip_address_def
  rx_ip_address_secondary_def rx_bandwidth_def rx_duplex_def rx_speed_def rx_routing_block_end_def
  rx_ospf_blocks_def rx_ospf_process_def rx_ospf_network_def rx_bgp_blocks_def rx_bgp_asn_def
  rx_static_routes_def rx_default_routes_def

lemmas re_eval = findall1_def findall3_def findall4_def re_finditer.simps fk_eval chr_eval
  mk_match_def group_def rx_build flag_defs

section \<open>Classification\<close>

lemma occurs_ci_iff: "occurs_ci word text \<longleftrightarrow> py_in word (py_lower text)"
proof
  assume "occurs_ci word text"
  then obtain pre w suf where "text = pre @ w @ suf" "py_lower w = word"
    unfolding occurs_ci_def by blast
  then have "py_lower text = py_lower pre @ word @ py_lower suf"
    by (simp add: py_lower_append)
  then show "py_in word (py_lower text)"
    unfolding py_in_iff by blast
next
  assume "py_in word (py_lower text)"
  then obtain p s where e: "py_lower text = p @ word @ s"
    unfolding py_in_iff by blast
  define pre where "pre = take (length p) text"
  define w where "w = take (length word) (drop (length p) text)"
  define suf where "suf = drop (length word) (drop (length p) text)"
  have "w @ suf = drop (length p) text"
    unfolding w_def suf_def by (rule append_take_drop_id)
  then have t: "text = pre @ w @ suf"
    unfolding pre_def by simp
  have "py_lower w = take (length word) (drop (length p) (py_lower text))"
    by (simp add: w_def py_lower_def take_map drop_map)
  also have "\<dots> = word" by (simp add: e)
  finally show "occurs_ci word text"
    unfolding occurs_ci_def using t by blast
qed

lemma score_zero_iff: "score inds t = 0 \<longleftrightarrow> (\<forall>i\<in>set inds. \<not> py_in i t)"
  by (auto simp: score_def filter_empty_conv)

lemma score_pos_iff: "0 < score inds t \<longleftrightarrow> (\<exists>i\<in>set inds. py_in i t)"
  using score_zero_iff [of inds t] by auto

text \<open>
  Claim C5. A text in which at least one switch indicator occurs, case ignored, and no
  router indicator does is classified as \<open>switch\<close>; a text in which at least one
  router indicator occurs and no switch indicator does is classified as \<open>router\<close>.
\<close>

theorem classify_by_indicators:
  "((\<exists>i\<in>set switch_indicators. occurs_ci i text) \<and>
    (\<forall>i\<in>set router_indicators. \<not> occurs_ci i text)
      \<longrightarrow> detect_device_type text = ''switch'') \<and>
   ((\<exists>i\<in>set router_indicators. occurs_ci i text) \<and>
    (\<forall>i\<in>set switch_indicators. \<not> occurs_ci i text)
      \<longrightarrow> detect_device_type text = ''router'')"
proof (intro conjI impI)
  assume "(\<exists>i\<in>set switch_indicators. occurs_ci i text) \<and>
          (\<forall>i\<in>set router_indicators. \<not> occurs_ci i text)"
  then have "0 < score switch_indicators (py_lower text)"
    and "score router_indicators (py_lower text) = 0"
    by (simp_all add: score_pos_iff score_zero_iff occurs_ci_iff)
  then show "detect_device_type text = ''switch''"
    by (simp add: detect_device_type_def Let_def)
next
  assume "(\<exists>i\<in>set router_indicators. occurs_ci i text) \<and>
          (\<forall>i\<in>set switch_indicators. \<not> occurs_ci i text)"
  then have "0 < score router_indicators (py_lower text)"
    and "score switch_indicators (py_lower text) = 0"
    by (simp_all add: score_pos_iff score_zero_iff occurs_ci_iff)
  then show "detect_device_type text = ''router''"
    by (simp add: detect_device_type_def Let_def)
qed

theorem classify_by_indicators_witness:
  "occurs_ci ''switchport'' ''Switchport mode access'' \<and>
   detect_device_type ''Switchport mode access'' = ''switch'' \<and>
   occurs_ci ''router ospf'' ''Router OSPF 1'' \<and>
   detect_device_type ''Router OSPF 1'' = ''router''"
proof -
  have s1: "\<exists>i\<in>set switch_indicators. occurs_ci i ''Switchport mode access''"
    by (simp add: occurs_ci_iff switch_indicators_def py_lower_def chr_eval)
  have s2: "\<forall>i\<in>set router_indicators. \<not> occurs_ci i ''Switchport mode access''"
    by (simp add: occurs_ci_iff router_indicators_def py_lower_def chr_eval)
  have r1: "\<exists>i\<in>set router_indicators. occurs_ci i ''Router OSPF 1''"
    by (simp add: occurs_ci_iff router_indicators_def py_lower_def chr_eval)
  have r2: "\<forall>i\<in>set switch_indicators. \<not> occurs_ci i ''Router OSPF 1''"
    by (simp add: occurs_ci_iff switch_indicators_def py_lower_def chr_eval)
  have o1: "occurs_ci ''switchport'' ''Switchport mode access''"
    by (simp add: occurs_ci_iff py_lower_def chr_eval)
  have o2: "occurs_ci ''router ospf'' ''Router OSPF 1''"
    by (simp add: occurs_ci_iff py_lower_def chr_eval)
  from s1 s2 r1 r2 o1 o2 classify_by_indicators [of "''Switchport mode access''"]
    classify_by_indicators [of "''Router OSPF 1''"]
  show ?thesis by blast
qed

section \<open>Extraction into fresh devices\<close>

lemma extract_router_result:
  "extract_router text h =
     (length h, h @ [parse_router_config text (Router_init ''Unknown'')])"
  by (simp add: extract_router_def new_object_def)

lemma extract_switch_result:
  "extract_switch text h =
     (length h, h @ [parse_switch_config text (Switch_init ''Unknown'')])"
  by (simp add: extract_switch_def new_object_def)

text \<open>
  Claim C7. Extracting the same text twice, each time into a fresh device, gives two
  devices that are equal field for field, whatever objects existed before: the second
  run leaves the first device as it was, and both hold what the extractor computes from
  the text and a default-constructed device.
\<close>

theorem extraction_deterministic:
  "(let (a, h1) = extract_router text h; (b, h2) = extract_router text h1
    in a \<noteq> b \<and> h2 ! a = h2 ! b \<and> h1 ! a = h2 ! a \<and>
       h2 ! b = parse_router_config text (Router_init ''Unknown'')) \<and>
   (let (a, k1) = extract_switch text k; (b, k2) = extract_switch text k1
    in a \<noteq> b \<and> k2 ! a = k2 ! b \<and> k1 ! a = k2 ! a \<and>
       k2 ! b = parse_switch_config text (Switch_init ''Unknown''))"
  by (simp add: extract_router_result extract_switch_result nth_append)

section \<open>Topology inference: what it leaves alone\<close>

lemma link_interfaces_devices [simp]:
  "st_devices (link_interfaces n d1 i1 d2 ps st) = st_devices st"
  by (induction ps) (auto split: option.splits)

lemma link_devices_devices [simp]:
  "st_devices (link_devices n i d1 i1 j ds st) = st_devices st"
  by (induction ds arbitrary: j st) auto

lemma scan_interfaces_devices [simp]:
  "st_devices (scan_interfaces i d1 ps st) = st_devices st"
  by (induction ps arbitrary: st) (auto split: option.splits)

lemma subnet_loop_devices [simp]:
  "st_devices (subnet_loop i ds st) = st_devices st"
  by (induction ds arbitrary: i st) auto

lemma link_by_description_devices [simp]:
  "st_devices (link_by_description d desc ds st) = st_devices st"
  by (induction ds) auto

lemma describe_interfaces_devices [simp]:
  "st_devices (describe_interfaces d ps st) = st_devices st"
  by (induction ps arbitrary: st) (auto split: option.splits)

lemma description_steps_devices [simp]:
  "st_devices (fold description_step ds st) = st_devices st"
  by (induction ds arbitrary: st) (auto simp: description_step_def)

lemma add_device_nodes_devices [simp]:
  "st_devices (fold add_device_node ds st) = st_devices st"
  by (induction ds arbitrary: st) (auto simp: add_device_node_def)

text \<open>
  Claim C9. \<open>build_topology\<close> only reads the devices: the device list of the state it
  ends in is the list it was given, every device with every field unchanged.
\<close>

theorem build_topology_reads_only:
  "st_devices (build_topology_state device_list) = device_list"
  by (simp add: build_topology_state_def description_pass_def subnet_pass_def add_nodes_def
      initial_state_def)

lemma scan_interfaces_single:
  "st_devices st = [d] \<Longrightarrow> scan_interfaces 0 d1 ps st = st"
  by (induction ps arbitrary: st) (auto split: option.splits)

lemma describe_interfaces_single:
  "st_devices st = [d] \<Longrightarrow> describe_interfaces d ps st = st"
  by (induction ps arbitrary: st) (auto split: option.splits)

lemma build_topology_single:
  "build_topology [d] =
     \<lparr>g_node = [(dev_hostname d, [(''type'', NStr (type_name d)), (''device_obj'', NDev d)])],
      g_adj = [(dev_hostname d, [])]\<rparr>"
  by (simp add: build_topology_def build_topology_state_def description_pass_def
      subnet_pass_def add_nodes_def initial_state_def description_step_def
      scan_interfaces_single describe_interfaces_single add_device_node_def add_node_def
      nx_Graph_def dict_has_def dict_update_def)

text \<open>
  Claim C8. For the empty list and for a list of one device, \<open>build_topology\<close> returns
  a graph without edges; the one device is a node of it, with its attributes and no
  neighbour.
\<close>

theorem build_topology_underdetermined:
  "g_edges (build_topology []) = [] \<and> g_nodes (build_topology []) = [] \<and>
   g_edges (build_topology [d]) = [] \<and> g_nodes (build_topology [d]) = [dev_hostname d] \<and>
   map_of (g_node (build_topology [d])) (dev_hostname d) =
     Some [(''type'', NStr (type_name d)), (''device_obj'', NDev d)] \<and>
   map_of (g_adj (build_topology [d])) (dev_hostname d) = Some []"
proof -
  have "build_topology [] = nx_Graph"
    by (simp add: build_topology_def build_topology_state_def description_pass_def
        subnet_pass_def add_nodes_def initial_state_def)
  then show ?thesis
    by (simp add: build_topology_single g_edges_def g_nodes_def nx_Graph_def)
qed

section \<open>Facts about graphs\<close>

lemma has_edge_iff: "has_edge g u v \<longleftrightarrow> get_edge_data g u v \<noteq> None"
  by (simp add: has_edge_def get_edge_data_def dict_has_def split: option.splits)

lemma dict_has_iff: "dict_has d k \<longleftrightarrow> k \<in> fst ` set d"
  by (simp add: dict_has_def map_of_eq_None_iff)

lemma graph_ok_nodes: "graph_ok g \<Longrightarrow> dict_has (g_node g) n = dict_has (g_adj g) n"
  unfolding graph_ok_def list_all_iff dict_has_iff by force

lemma graph_ok_nbrs:
  "graph_ok g \<Longrightarrow> map_of (g_adj g) n = Some nbrs \<Longrightarrow> distinct (map fst nbrs)"
  unfolding graph_ok_def list_all_iff by (auto dest: map_of_SomeD)

lemma graph_okI:
  assumes "distinct (map fst (g_adj g))"
    and "\<And>n nbrs. map_of (g_adj g) n = Some nbrs \<Longrightarrow> distinct (map fst nbrs)"
    and "\<And>n. dict_has (g_node g) n = dict_has (g_adj g) n"
  shows "graph_ok g"
  unfolding graph_ok_def list_all_iff
proof (intro conjI ballI)
  show "distinct (map fst (g_adj g))" by fact
next
  fix e assume "e \<in> set (g_adj g)"
  then have "map_of (g_adj g) (fst e) = Some (snd e)"
    using assms(1) by simp
  then show "distinct (map fst (snd e))" by (rule assms(2))
next
  fix e assume "e \<in> set (g_adj g)"
  then have "dict_has (g_adj g) (fst e)" by (auto simp: dict_has_iff)
  then show "dict_has (g_node g) (fst e)" by (simp add: assms(3))
next
  fix e assume "e \<in> set (g_node g)"
  then have "dict_has (g_node g) (fst e)" by (auto simp: dict_has_iff)
  then show "dict_has (g_adj g) (fst e)" by (simp add: assms(3))
qed

lemma dict_has_update: "dict_has (AList.update k v d) k' \<longleftrightarrow> k' = k \<or> dict_has d k'"
  by (simp add: dict_has_def update_conv')

lemma graph_ok_empty: "graph_ok nx_Graph"
  by (simp add: graph_ok_def nx_Graph_def)

lemma touch_node_ok: "graph_ok g \<Longrightarrow> graph_ok (touch_node g u)"
proof (rule graph_okI)
  assume ok: "graph_ok g"
  show "distinct (map fst (g_adj (touch_node g u)))"
    using ok by (simp add: touch_node_def graph_ok_def distinct_update)
  show "distinct (map fst nbrs)" if "map_of (g_adj (touch_node g u)) n = Some nbrs" for n nbrs
    using that graph_ok_nbrs [OF ok, of n nbrs]
    by (auto simp: touch_node_def update_conv' split: if_splits)
  show "dict_has (g_node (touch_node g u)) n = dict_has (g_adj (touch_node g u)) n" for n
    using graph_ok_nodes [OF ok] by (simp add: touch_node_def dict_has_update)
qed

lemma touch_node_data:
  "graph_ok g \<Longrightarrow> get_edge_data (touch_node g u) x y = get_edge_data g x y"
  using graph_ok_nodes [of g u]
  by (auto simp: touch_node_def get_edge_data_def update_conv' dict_has_def)

lemma touch_node_has: "dict_has (g_adj (touch_node g u)) u \<or> dict_has (g_node g) u"
  by (simp add: touch_node_def dict_has_update)

lemma add_node_ok: "graph_ok g \<Longrightarrow> graph_ok (add_node g n attr)"
proof (rule graph_okI)
  assume ok: "graph_ok g"
  show "distinct (map fst (g_adj (add_node g n attr)))"
    using ok by (simp add: add_node_def graph_ok_def distinct_update)
  show "distinct (map fst nbrs)" if "map_of (g_adj (add_node g n attr)) m = Some nbrs" for m nbrs
    using that graph_ok_nbrs [OF ok, of m nbrs]
    by (auto simp: add_node_def update_conv' split: if_splits)
  show "dict_has (g_node (add_node g n attr)) m = dict_has (g_adj (add_node g n attr)) m" for m
    using graph_ok_nodes [OF ok] by (auto simp: add_node_def dict_has_update)
qed

lemma add_node_data:
  "graph_ok g \<Longrightarrow> get_edge_data (add_node g n attr) x y = get_edge_data g x y"
  using graph_ok_nodes [of g n]
  by (auto simp: add_node_def get_edge_data_def update_conv' dict_has_def)

lemma map_of_dict_get: "map_of (dict_get adj u []) y = (case map_of adj u of None \<Rightarrow> None | Some nbrs \<Rightarrow> map_of nbrs y)"
  by (simp add: dict_get_def split: option.splits)

lemma dict_get_data:
  "dict_get (dict_get (g_adj g) u []) v [] = (case get_edge_data g u v of None \<Rightarrow> [] | Some d \<Rightarrow> d)"
  by (simp add: dict_get_def get_edge_data_def split: option.splits)

lemma add_edge_adj:
  "g_adj (add_edge g0 u v attr) =
     (let g = touch_node (touch_node g0 u) v;
          dd = new_data g u v attr;
          adj = AList.update u (AList.update v dd (dict_get (g_adj g) u [])) (g_adj g)
      in AList.update v (AList.update u dd (dict_get adj v [])) adj)"
  by (simp add: add_edge_def Let_def new_data_def dict_get_data)

lemma add_edge_node: "g_node (add_edge g0 u v attr) = g_node (touch_node (touch_node g0 u) v)"
  by (simp add: add_edge_def Let_def)

lemma lookup2_update:
  "lookup2 (AList.update k (AList.update k' d (dict_get adj k [])) adj) x y =
     (if x = k \<and> y = k' then Some d else lookup2 adj x y)"
  by (simp add: lookup2_def update_conv' dict_get_def split: option.splits)

lemma get_edge_data_lookup2: "get_edge_data g x y = lookup2 (g_adj g) x y"
  by (simp add: get_edge_data_def lookup2_def)

lemma touched_data:
  assumes ok: "graph_ok g"
  shows "lookup2 (g_adj (touch_node (touch_node g u) v)) a b = get_edge_data g a b"
proof -
  have "get_edge_data (touch_node (touch_node g u) v) a b = get_edge_data (touch_node g u) a b"
    by (rule touch_node_data [OF touch_node_ok [OF ok]])
  also have "\<dots> = get_edge_data g a b"
    by (rule touch_node_data [OF ok])
  finally show ?thesis
    by (simp only: get_edge_data_lookup2)
qed

lemma touched_new_data:
  assumes ok: "graph_ok g"
  shows "new_data (touch_node (touch_node g u) v) u v attr = new_data g u v attr"
proof -
  have "get_edge_data (touch_node (touch_node g u) v) u v = get_edge_data g u v"
    using touched_data [OF ok, of u v u v] by (simp only: get_edge_data_lookup2)
  then show ?thesis
    by (simp only: new_data_def)
qed

lemma add_edge_data0:
  assumes ok: "graph_ok g"
  shows "get_edge_data (add_edge g u v attr) x y =
      (if x = v \<and> y = u then Some (new_data g u v attr)
       else if x = u \<and> y = v then Some (new_data g u v attr) else get_edge_data g x y)"
  apply (simp only: get_edge_data_lookup2 [of "add_edge g u v attr"])
  apply (simp only: add_edge_adj Let_def)
  apply (simp only: lookup2_update)
  apply (simp only: touched_data [OF ok])
  apply (simp only: touched_new_data [OF ok])
  done

lemma add_edge_data_new:
  "graph_ok g \<Longrightarrow> get_edge_data (add_edge g u v attr) u v = Some (new_data g u v attr)"
  "graph_ok g \<Longrightarrow> get_edge_data (add_edge g u v attr) v u = Some (new_data g u v attr)"
  by (simp_all only: add_edge_data0 simp_thms if_True if_False split: if_split)

lemma add_edge_data_old:
  assumes "graph_ok g" and "\<not> (x = u \<and> y = v)" and "\<not> (x = v \<and> y = u)"
  shows "get_edge_data (add_edge g u v attr) x y = get_edge_data g x y"
  using assms(2,3) by (simp only: add_edge_data0 [OF assms(1)] if_False)

lemma distinct_dict_get:
  "graph_ok g \<Longrightarrow> distinct (map fst (dict_get (g_adj g) a []))"
  using graph_ok_nbrs [of g a] by (simp add: dict_get_def split: option.splits)

lemma update_entry_ok:
  assumes ok: "graph_ok g" and has: "dict_has (g_node g) k"
  shows "graph_ok (g\<lparr>g_adj := AList.update k (AList.update k' d (dict_get (g_adj g) k [])) (g_adj g)\<rparr>)"
proof (rule graph_okI)
  let ?g = "g\<lparr>g_adj := AList.update k (AList.update k' d (dict_get (g_adj g) k [])) (g_adj g)\<rparr>"
  show "distinct (map fst (g_adj ?g))"
    using ok by (simp add: graph_ok_def distinct_update)
  show "distinct (map fst nbrs)" if "map_of (g_adj ?g) n = Some nbrs" for n nbrs
  proof (cases "n = k")
    case True
    with that have "nbrs = AList.update k' d (dict_get (g_adj g) k [])"
      by (simp add: update_conv')
    then show ?thesis
      by (simp add: distinct_update distinct_dict_get ok)
  next
    case False
    with that have "map_of (g_adj g) n = Some nbrs" by (simp add: update_conv')
    then show ?thesis by (rule graph_ok_nbrs [OF ok])
  qed
  show "dict_has (g_node ?g) n = dict_has (g_adj ?g) n" for n
    using graph_ok_nodes [OF ok, of n] has by (auto simp: dict_has_update)
qed

lemma touched_has:
  "dict_has (g_node (touch_node (touch_node g u) v)) u"
  "dict_has (g_node (touch_node (touch_node g u) v)) v"
  by (auto simp: touch_node_def dict_has_update)

lemma add_edge_unfold:
  "add_edge g u v attr =
     (let g' = touch_node (touch_node g u) v;
          dd = new_data g' u v attr;
          g1 = g'\<lparr>g_adj := AList.update u (AList.update v dd (dict_get (g_adj g') u [])) (g_adj g')\<rparr>
      in g1\<lparr>g_adj := AList.update v (AList.update u dd (dict_get (g_adj g1) v [])) (g_adj g1)\<rparr>)"
  by (simp add: add_edge_def Let_def new_data_def dict_get_data)

lemma add_edge_ok:
  assumes ok: "graph_ok g"
  shows "graph_ok (add_edge g u v attr)"
proof -
  have ok': "graph_ok (touch_node (touch_node g u) v)"
    by (simp add: touch_node_ok ok)
  show ?thesis
    unfolding add_edge_unfold Let_def
    by (rule update_entry_ok [OF update_entry_ok [OF ok' touched_has(1)]])
       (simp add: touched_has(2))
qed

lemma add_edge_symmetric:
  assumes ok: "graph_ok g" and sym: "symmetric g"
  shows "symmetric (add_edge g u v attr)"
  unfolding symmetric_def
proof (intro allI)
  fix x y
  consider "x = u \<and> y = v" | "x = v \<and> y = u" | "\<not> (x = u \<and> y = v) \<and> \<not> (x = v \<and> y = u)"
    by blast
  then show "get_edge_data (add_edge g u v attr) x y = get_edge_data (add_edge g u v attr) y x"
  proof cases
    case 1
    then show ?thesis by (simp only: add_edge_data_new [OF ok])
  next
    case 2
    then show ?thesis by (simp only: add_edge_data_new [OF ok])
  next
    case 3
    then have "get_edge_data (add_edge g u v attr) x y = get_edge_data g x y"
      by (intro add_edge_data_old [OF ok]) blast+
    moreover from 3 have "get_edge_data (add_edge g u v attr) y x = get_edge_data g y x"
      by (intro add_edge_data_old [OF ok]) blast+
    ultimately show ?thesis using sym by (simp only: symmetric_def)
  qed
qed

lemma add_edge_loop_free:
  assumes ok: "graph_ok g" and lf: "loop_free g" and ne: "u \<noteq> v"
  shows "loop_free (add_edge g u v attr)"
  unfolding loop_free_def
proof
  fix x
  have "\<not> (x = u \<and> x = v)" using ne by blast
  then have "get_edge_data (add_edge g u v attr) x x = get_edge_data g x x"
    by (intro add_edge_data_old [OF ok]) blast+
  then show "get_edge_data (add_edge g u v attr) x x = None"
    using lf by (simp only: loop_free_def)
qed

lemma add_node_symmetric: "graph_ok g \<Longrightarrow> symmetric g \<Longrightarrow> symmetric (add_node g n attr)"
  unfolding symmetric_def by (simp add: add_node_data)

lemma add_node_loop_free: "graph_ok g \<Longrightarrow> loop_free g \<Longrightarrow> loop_free (add_node g n attr)"
  unfolding loop_free_def by (simp add: add_node_data)

section \<open>Both passes keep the graph well formed\<close>

lemma graph_inv_add_edge:
  "graph_inv g \<Longrightarrow> u \<noteq> v \<Longrightarrow> graph_inv (add_edge g u v attr)"
  by (simp add: graph_inv_def add_edge_ok add_edge_symmetric add_edge_loop_free)

lemma graph_inv_add_node: "graph_inv g \<Longrightarrow> graph_inv (add_node g n attr)"
  by (simp add: graph_inv_def add_node_ok add_node_symmetric add_node_loop_free)

lemma graph_inv_empty: "graph_inv nx_Graph"
  using graph_ok_empty
  by (simp add: graph_inv_def symmetric_def loop_free_def get_edge_data_def nx_Graph_def)

lemma new_data_subnet:
  assumes "subnet_keys g"
  shows "new_data g u v [(''interface1'', a), (''interface2'', b), (''network'', c)] =
           [(''interface1'', a), (''interface2'', b), (''network'', c)]"
proof (cases "get_edge_data g u v")
  case None
  then show ?thesis by (simp add: new_data_def dict_update_def)
next
  case (Some d)
  with assms have k: "map fst d = [''interface1'', ''interface2'', ''network'']"
    by (simp add: subnet_keys_def)
  then obtain x y z where "d = [(''interface1'', x), (''interface2'', y), (''network'', z)]"
    by (cases d; cases "tl d"; cases "tl (tl d)"; cases "tl (tl (tl d))") auto
  with Some show ?thesis by (simp add: new_data_def dict_update_def)
qed

lemma subnet_keys_add_edge:
  assumes "graph_ok g" and "subnet_keys g"
  shows "subnet_keys (add_edge g u v [(''interface1'', a), (''interface2'', b), (''network'', c)])"
  unfolding subnet_keys_def
proof (intro allI impI)
  fix x y d
  assume d: "get_edge_data (add_edge g u v [(''interface1'', a), (''interface2'', b), (''network'', c)]) x y = Some d"
  consider "x = u \<and> y = v" | "x = v \<and> y = u" | "\<not> (x = u \<and> y = v) \<and> \<not> (x = v \<and> y = u)"
    by blast
  then show "map fst d = [''interface1'', ''interface2'', ''network'']"
  proof cases
    case 1
    with d show ?thesis
      by (auto simp: add_edge_data_new [OF assms(1)] new_data_subnet [OF assms(2)])
  next
    case 2
    with d show ?thesis
      by (auto simp: add_edge_data_new [OF assms(1)] new_data_subnet [OF assms(2)])
  next
    case 3
    then have "get_edge_data (add_edge g u v [(''interface1'', a), (''interface2'', b), (''network'', c)]) x y = get_edge_data g x y"
      by (intro add_edge_data_old [OF assms(1)]) blast+
    with d assms(2) show ?thesis by (simp add: subnet_keys_def)
  qed
qed

lemma subnet_keys_add_node: "graph_ok g \<Longrightarrow> subnet_keys g \<Longrightarrow> subnet_keys (add_node g n attr)"
  by (simp add: subnet_keys_def add_node_data)

lemma subnet_inv_link:
  assumes "subnet_inv st" and "u \<noteq> v"
  shows "subnet_inv (st\<lparr>st_graph := add_edge (st_graph st) u v
            [(''interface1'', a), (''interface2'', b), (''network'', c)],
          st_links_found := n\<rparr>)"
proof -
  from assms have gi: "graph_inv (st_graph st)" and sk: "subnet_keys (st_graph st)"
    by (simp_all add: subnet_inv_def)
  from gi have ok: "graph_ok (st_graph st)" by (simp add: graph_inv_def)
  show ?thesis
    using graph_inv_add_edge [OF gi assms(2)] subnet_keys_add_edge [OF ok sk]
    by (simp add: subnet_inv_def)
qed

lemma link_interfaces_inv:
  assumes "subnet_inv st" and "dev_hostname d1 \<noteq> dev_hostname d2"
  shows "subnet_inv (link_interfaces n d1 i1 d2 ps st)"
  using assms by (induction ps) (auto simp: subnet_inv_link split: option.splits)

lemma link_devices_inv:
  assumes "subnet_inv st"
    and "\<forall>k<length ds. j + k \<noteq> i \<longrightarrow> dev_hostname (ds ! k) \<noteq> dev_hostname d1"
  shows "subnet_inv (link_devices n i d1 i1 j ds st)"
  using assms
proof (induction ds arbitrary: j st)
  case Nil
  then show ?case by simp
next
  case (Cons d2 rest)
  have head: "j \<noteq> i \<Longrightarrow> dev_hostname d1 \<noteq> dev_hostname d2"
    using Cons.prems(2) by fastforce
  have tail: "\<forall>k<length rest. Suc j + k \<noteq> i \<longrightarrow> dev_hostname (rest ! k) \<noteq> dev_hostname d1"
    using Cons.prems(2) by fastforce
  show ?case
    using Cons.IH [OF _ tail] Cons.prems(1) head
    by (simp add: link_interfaces_inv)
qed

lemma distinct_hostnames_nth:
  assumes "distinct (map dev_hostname ds)" and "i < length ds" and "k < length ds" and "k \<noteq> i"
  shows "dev_hostname (ds ! k) \<noteq> dev_hostname (ds ! i)"
  using assms nth_eq_iff_index_eq [of "map dev_hostname ds" k i] by simp

lemma scan_interfaces_inv:
  assumes "subnet_inv st" and "distinct (map dev_hostname (st_devices st))"
    and "i < length (st_devices st)" and "d1 = st_devices st ! i"
  shows "subnet_inv (scan_interfaces i d1 ps st)"
  using assms
proof (induction ps arbitrary: st)
  case Nil
  then show ?case by simp
next
  case (Cons p ps)
  obtain intf1 props1 where p: "p = (intf1, props1)" by (cases p)
  have step: "subnet_inv (link_devices n i d1 intf1 0 (st_devices st) st)" for n
    using Cons.prems distinct_hostnames_nth [of "st_devices st" i]
    by (intro link_devices_inv) auto
  define st' where "st' =
     (case ip_address props1 of
        None \<Rightarrow> st
      | Some ip1 \<Rightarrow>
          (case subnet_mask props1 of
             None \<Rightarrow> st
           | Some mask1 \<Rightarrow>
               if ip1 = [] \<or> mask1 = [] then st
               else (case IPv4Network (ip1 @ ''/'' @ mask1) of
                       None \<Rightarrow> st
                     | Some network1 \<Rightarrow>
                         link_devices network1 i d1 intf1 0 (st_devices st) st)))"
  have inv': "subnet_inv st'"
    using Cons.prems(1) step by (simp add: st'_def split: option.splits)
  have dev': "st_devices st' = st_devices st"
    by (simp add: st'_def split: option.splits)
  have "scan_interfaces i d1 (p # ps) st = scan_interfaces i d1 ps st'"
    by (simp add: p st'_def)
  then show ?case
    using Cons.IH [OF inv'] Cons.prems by (simp add: dev')
qed

lemma subnet_loop_inv:
  assumes "subnet_inv st" and "distinct (map dev_hostname (st_devices st))"
    and "drop i (st_devices st) = ds"
  shows "subnet_inv (subnet_loop i ds st)"
  using assms
proof (induction ds arbitrary: i st)
  case Nil
  then show ?case by simp
next
  case (Cons d rest)
  have i: "i < length (st_devices st)"
    using Cons.prems(3) by (cases "i < length (st_devices st)") auto
  then have d: "d = st_devices st ! i" and rest: "drop (Suc i) (st_devices st) = rest"
    using Cons.prems(3) by (simp_all add: Cons_nth_drop_Suc [symmetric])
  let ?st = "scan_interfaces i d (dev_interfaces d) st"
  have "subnet_inv ?st"
    using Cons.prems(1,2) i d by (rule scan_interfaces_inv)
  moreover have "st_devices ?st = st_devices st" by simp
  ultimately have "subnet_inv (subnet_loop (Suc i) rest ?st)"
    using Cons.prems(2) rest by (intro Cons.IH) simp_all
  then show ?case by simp
qed

lemma add_nodes_inv:
  "subnet_inv st \<Longrightarrow> subnet_inv (fold add_device_node ds st)"
proof (induction ds arbitrary: st)
  case Nil
  then show ?case by simp
next
  case (Cons d ds)
  from Cons.prems have gi: "graph_inv (st_graph st)" and sk: "subnet_keys (st_graph st)"
    by (simp_all add: subnet_inv_def)
  from gi have ok: "graph_ok (st_graph st)" by (simp add: graph_inv_def)
  have "subnet_inv (add_device_node d st)"
    using graph_inv_add_node [OF gi] subnet_keys_add_node [OF ok sk]
    by (simp add: add_device_node_def subnet_inv_def)
  then show ?case using Cons.IH by simp
qed

lemma initial_inv: "subnet_inv (initial_state ds)"
  using graph_inv_empty
  by (simp add: subnet_inv_def initial_state_def subnet_keys_def get_edge_data_def nx_Graph_def)

lemma subnet_pass_inv:
  assumes "distinct (map dev_hostname ds)"
  shows "subnet_inv (subnet_pass (add_nodes (initial_state ds)))"
proof -
  let ?st = "add_nodes (initial_state ds)"
  have "subnet_inv ?st" by (simp add: add_nodes_def add_nodes_inv initial_inv)
  moreover have "st_devices ?st = ds" by (simp add: add_nodes_def initial_state_def)
  ultimately show ?thesis
    unfolding subnet_pass_def using assms by (intro subnet_loop_inv) simp_all
qed

text \<open>The description pass.\<close>

lemma keeps_edges_refl: "keeps_edges g g"
  by (simp add: keeps_edges_def)

lemma keeps_edges_trans: "keeps_edges g g' \<Longrightarrow> keeps_edges g' g'' \<Longrightarrow> keeps_edges g g''"
  by (simp add: keeps_edges_def)

lemma keeps_edges_add_edge:
  assumes inv: "graph_inv g" and no: "\<not> has_edge g u v"
  shows "keeps_edges g (add_edge g u v attr)"
  unfolding keeps_edges_def
proof (intro allI impI)
  fix x y d
  assume d: "get_edge_data g x y = Some d"
  from inv have ok: "graph_ok g" and sym: "symmetric g" by (simp_all add: graph_inv_def)
  from no have n1: "get_edge_data g u v = None" by (simp add: has_edge_iff)
  with sym have n2: "get_edge_data g v u = None" by (simp add: symmetric_def)
  have "\<not> (x = u \<and> y = v)" using d n1 by auto
  moreover have "\<not> (x = v \<and> y = u)" using d n2 by auto
  ultimately have "get_edge_data (add_edge g u v attr) x y = get_edge_data g x y"
    by (rule add_edge_data_old [OF ok])
  with d show "get_edge_data (add_edge g u v attr) x y = Some d" by simp
qed

lemma link_by_description_inv:
  assumes "graph_inv (st_graph st)"
  shows "descr_inv st (link_by_description d desc ds st)"
  using assms
  by (induction ds)
     (auto simp: descr_inv_def keeps_edges_refl keeps_edges_add_edge graph_inv_add_edge)

lemma descr_inv_trans: "descr_inv a b \<Longrightarrow> descr_inv b c \<Longrightarrow> descr_inv a c"
  using keeps_edges_trans by (auto simp: descr_inv_def)

lemma descr_inv_refl: "graph_inv (st_graph st) \<Longrightarrow> descr_inv st st"
  by (simp add: descr_inv_def keeps_edges_refl)

lemma describe_interfaces_inv:
  assumes "graph_inv (st_graph st)"
  shows "descr_inv st (describe_interfaces d ps st)"
  using assms
proof (induction ps arbitrary: st)
  case Nil
  then show ?case by (simp add: descr_inv_refl)
next
  case (Cons p ps)
  obtain intf_name props where p: "p = (intf_name, props)" by (cases p)
  define st' where "st' =
     (case description props of
        None \<Rightarrow> st
      | Some dsc \<Rightarrow>
          if dsc = [] then st
          else link_by_description d (py_lower dsc) (st_devices st) st)"
  have one: "descr_inv st st'"
    using Cons.prems
    by (simp add: st'_def descr_inv_refl link_by_description_inv split: option.splits)
  then have "graph_inv (st_graph st')" by (simp add: descr_inv_def)
  then have "descr_inv st' (describe_interfaces d ps st')" by (rule Cons.IH)
  with one have "descr_inv st (describe_interfaces d ps st')" by (rule descr_inv_trans)
  moreover have "describe_interfaces d (p # ps) st = describe_interfaces d ps st'"
    by (simp add: p st'_def)
  ultimately show ?case by simp
qed

lemma description_steps_inv:
  assumes "graph_inv (st_graph st)"
  shows "descr_inv st (fold description_step ds st)"
  using assms
proof (induction ds arbitrary: st)
  case Nil
  then show ?case by (simp add: descr_inv_refl)
next
  case (Cons d ds)
  have one: "descr_inv st (description_step d st)"
    unfolding description_step_def using Cons.prems by (rule describe_interfaces_inv)
  then have "graph_inv (st_graph (description_step d st))" by (simp add: descr_inv_def)
  then have "descr_inv (description_step d st) (fold description_step ds (description_step d st))"
    by (rule Cons.IH)
  with one show ?case by (simp add: descr_inv_trans)
qed

lemma description_pass_inv:
  "graph_inv (st_graph st) \<Longrightarrow> descr_inv st (description_pass st)"
  unfolding description_pass_def by (rule description_steps_inv)

section \<open>The list of edges\<close>

lemma edges_from_iff:
  "(u, v) \<in> set (edges_from adj seen) \<longleftrightarrow>
     (\<exists>pre nbrs post. adj = pre @ (u, nbrs) # post \<and> v \<in> fst ` set nbrs \<and>
        v \<notin> set seen \<and> v \<notin> fst ` set pre)"
proof (induction adj arbitrary: seen)
  case Nil
  then show ?case by simp
next
  case (Cons entry rest)
  obtain n nb where entry: "entry = (n, nb)" by (cases entry)
  have head: "(u, v) \<in> set (map (\<lambda>nbr. (n, nbr)) (filter (\<lambda>nbr. nbr \<notin> set seen) (map fst nb)))
      \<longleftrightarrow> u = n \<and> v \<in> fst ` set nb \<and> v \<notin> set seen"
    by auto
  have split: "(\<exists>pre nbrs post. (n, nb) # rest = pre @ (u, nbrs) # post \<and> v \<in> fst ` set nbrs \<and>
        v \<notin> set seen \<and> v \<notin> fst ` set pre) \<longleftrightarrow>
      (u = n \<and> v \<in> fst ` set nb \<and> v \<notin> set seen) \<or>
      (\<exists>pre nbrs post. rest = pre @ (u, nbrs) # post \<and> v \<in> fst ` set nbrs \<and>
        v \<notin> set (n # seen) \<and> v \<notin> fst ` set pre)" (is "?L \<longleftrightarrow> ?A \<or> ?B")
  proof
    assume ?L
    then obtain pre nbrs post where e: "(n, nb) # rest = pre @ (u, nbrs) # post"
      and v: "v \<in> fst ` set nbrs" "v \<notin> set seen" "v \<notin> fst ` set pre" by blast
    show "?A \<or> ?B"
    proof (cases pre)
      case Nil
      with e v show ?thesis by auto
    next
      case (Cons p pre')
      with e have "p = (n, nb)" and "rest = pre' @ (u, nbrs) # post" by auto
      moreover from Cons v(3) \<open>p = (n, nb)\<close> have "v \<noteq> n" "v \<notin> fst ` set pre'" by auto
      ultimately have ?B using v by auto
      then show ?thesis ..
    qed
  next
    assume "?A \<or> ?B"
    then show ?L
    proof
      assume ?A
      then have "(n, nb) # rest = [] @ (u, nb) # rest \<and> v \<in> fst ` set nb \<and> v \<notin> set seen
          \<and> v \<notin> fst ` set []" by simp
      then show ?L by blast
    next
      assume ?B
      then obtain pre nbrs post where "rest = pre @ (u, nbrs) # post"
        and "v \<in> fst ` set nbrs" "v \<notin> set (n # seen)" "v \<notin> fst ` set pre" by blast
      then have "(n, nb) # rest = ((n, nb) # pre) @ (u, nbrs) # post \<and> v \<in> fst ` set nbrs
          \<and> v \<notin> set seen \<and> v \<notin> fst ` set ((n, nb) # pre)" by auto
      then show ?L by blast
    qed
  qed
  show ?case
    unfolding entry edges_from.simps set_append Un_iff head Cons.IH split ..
qed

lemma edges_from_data:
  assumes "distinct (map fst adj)" and "(u, v) \<in> set (edges_from adj seen)"
  shows "lookup2 adj u v \<noteq> None"
proof -
  from assms(2) obtain pre nbrs post where "adj = pre @ (u, nbrs) # post" "v \<in> fst ` set nbrs"
    unfolding edges_from_iff by blast
  then have "map_of adj u = Some nbrs" using assms(1) by (intro map_of_is_SomeI) auto
  with \<open>v \<in> fst ` set nbrs\<close> show ?thesis
    by (simp add: lookup2_def map_of_eq_None_iff)
qed

lemma edges_from_distinct:
  assumes "distinct (map fst adj)"
    and "\<And>n nbrs. (n, nbrs) \<in> set adj \<Longrightarrow> distinct (map fst nbrs)"
  shows "distinct (map pair_of (edges_from adj seen))"
  using assms
proof (induction adj arbitrary: seen)
  case Nil
  then show ?case by simp
next
  case (Cons entry rest)
  obtain n nb where entry: "entry = (n, nb)" by (cases entry)
  let ?head = "map (\<lambda>nbr. (n, nbr)) (filter (\<lambda>nbr. nbr \<notin> set seen) (map fst nb))"
  have dn: "distinct (map fst nb)" using Cons.prems(2) [of n nb] by (simp add: entry)
  have "inj_on (\<lambda>nbr. pair_of (n, nbr)) (set (map fst nb))"
    by (auto simp: inj_on_def pair_of_def doubleton_eq_iff)
  then have "distinct (map (\<lambda>nbr. pair_of (n, nbr)) (filter (\<lambda>nbr. nbr \<notin> set seen) (map fst nb)))"
    using dn by (intro iffD2 [OF distinct_map]) (auto intro: inj_on_subset distinct_filter)
  then have h: "distinct (map pair_of ?head)" by (simp add: comp_def)
  have t: "distinct (map pair_of (edges_from rest (n # seen)))"
    using Cons.prems by (intro Cons.IH) (auto simp: entry)
  have disj: "pair_of a \<noteq> pair_of b"
    if a: "a \<in> set ?head" and b: "b \<in> set (edges_from rest (n # seen))" for a b
  proof -
    obtain m x where b': "b = (m, x)" by (cases b)
    from b have "m \<in> fst ` set rest" and "x \<noteq> n"
      unfolding b' edges_from_iff by auto
    moreover have "n \<notin> fst ` set rest" using Cons.prems(1) by (simp add: entry)
    ultimately have "n \<notin> pair_of b" by (auto simp: b' pair_of_def)
    moreover from a have "n \<in> pair_of a" by (auto simp: pair_of_def)
    ultimately show ?thesis by auto
  qed
  have "set (map pair_of ?head) \<inter> set (map pair_of (edges_from rest (n # seen))) = {}"
  proof (rule ccontr)
    assume "set (map pair_of ?head) \<inter> set (map pair_of (edges_from rest (n # seen))) \<noteq> {}"
    then obtain p where "p \<in> set (map pair_of ?head)"
      and "p \<in> set (map pair_of (edges_from rest (n # seen)))" by blast
    then obtain a b where "a \<in> set ?head" "p = pair_of a"
      and "b \<in> set (edges_from rest (n # seen))" "p = pair_of b"
      unfolding set_map by blast
    with disj [of a b] show False by simp
  qed
  with h t show ?case
    unfolding entry edges_from.simps map_append distinct_append by blast
qed

lemma edges_from_exists:
  assumes d: "distinct (map fst adj)"
    and uv: "lookup2 adj u v \<noteq> None" and vu: "lookup2 adj v u \<noteq> None"
  shows "(u, v) \<in> set (edges_from adj []) \<or> (v, u) \<in> set (edges_from adj [])"
proof -
  have key: "\<exists>n. map_of adj a = Some n \<and> b \<in> fst ` set n" if "lookup2 adj a b \<noteq> None" for a b
  proof (cases "map_of adj a")
    case None
    with that show ?thesis by (simp add: lookup2_def)
  next
    case (Some n)
    with that have "map_of n b \<noteq> None" by (simp add: lookup2_def)
    then have "b \<in> fst ` set n" by (simp add: map_of_eq_None_iff)
    with Some show ?thesis by simp
  qed
  from key [OF uv] obtain nu where nu: "map_of adj u = Some nu" "v \<in> fst ` set nu" by blast
  from key [OF vu] obtain nv where nv: "map_of adj v = Some nv" "u \<in> fst ` set nv" by blast
  from nu(1) have "(u, nu) \<in> set adj" by (rule map_of_SomeD)
  then obtain pre post where adj: "adj = pre @ (u, nu) # post" by (auto dest: split_list)
  show ?thesis
  proof (cases "v \<in> fst ` set pre")
    case False
    with adj nu(2) have "(u, v) \<in> set (edges_from adj [])"
      unfolding edges_from_iff by auto
    then show ?thesis ..
  next
    case True
    then obtain w where "(v, w) \<in> set pre" by auto
    then obtain p1 p2 where pre: "pre = p1 @ (v, w) # p2" by (auto dest: split_list)
    have "map_of adj v = Some w" using d by (intro map_of_is_SomeI) (auto simp: adj pre)
    with nv have w: "u \<in> fst ` set w" by simp
    have "u \<notin> fst ` set p1" using d by (auto simp: adj pre)
    moreover have "adj = p1 @ (v, w) # (p2 @ (u, nu) # post)" by (simp add: adj pre)
    ultimately have "(v, u) \<in> set (edges_from adj [])"
      unfolding edges_from_iff using w by auto
    then show ?thesis ..
  qed
qed

lemma count_list_distinct: "distinct xs \<Longrightarrow> x \<in> set xs \<Longrightarrow> count_list xs x = 1"
  by (induction xs) (auto simp: count_list_0_iff)

lemma g_edges_distinct: "graph_ok g \<Longrightarrow> distinct (map pair_of (g_edges g))"
  unfolding g_edges_def
  by (rule edges_from_distinct) (auto simp: graph_ok_def list_all_iff)

lemma g_edges_no_loop:
  assumes "graph_ok g" and "loop_free g" and "e \<in> set (g_edges g)"
  shows "fst e \<noteq> snd e"
proof
  assume eq: "fst e = snd e"
  have "distinct (map fst (g_adj g))" using assms(1) by (simp add: graph_ok_def)
  moreover have "(fst e, snd e) \<in> set (edges_from (g_adj g) [])"
    using assms(3) by (simp add: g_edges_def)
  ultimately have "get_edge_data g (fst e) (snd e) \<noteq> None"
    unfolding get_edge_data_lookup2 by (rule edges_from_data)
  with assms(2) eq show False by (simp add: loop_free_def)
qed

lemma g_edges_count:
  assumes ok: "graph_ok g" and sym: "symmetric g" and d: "get_edge_data g u v = Some d"
  shows "count_list (map pair_of (g_edges g)) {u, v} = 1"
proof -
  have dk: "distinct (map fst (g_adj g))" using ok by (simp add: graph_ok_def)
  from d sym have "lookup2 (g_adj g) u v \<noteq> None" and "lookup2 (g_adj g) v u \<noteq> None"
    by (simp_all add: symmetric_def get_edge_data_lookup2 [symmetric])
  with dk have "(u, v) \<in> set (g_edges g) \<or> (v, u) \<in> set (g_edges g)"
    unfolding g_edges_def by (rule edges_from_exists)
  then have "{u, v} \<in> set (map pair_of (g_edges g))"
    by (force simp: pair_of_def insert_commute)
  with g_edges_distinct [OF ok] show ?thesis by (rule count_list_distinct)
qed

text \<open>
  Claim C4. For a device list with pairwise distinct hostnames the graph has no edge
  from a node to itself and lists no unordered pair of hostnames twice; an edge that the
  subnet pass made is, in the final graph, the one edge of its pair and carries the
  attributes the subnet pass gave it, with the keys \<open>interface1\<close>, \<open>interface2\<close> and
  \<open>network\<close>: the description pass adds edges only where none is and changes none.
\<close>

theorem topology_edges_unique:
  assumes "distinct (map dev_hostname device_list)"
  shows "(\<forall>e\<in>set (g_edges (build_topology device_list)). fst e \<noteq> snd e) \<and>
         distinct (map pair_of (g_edges (build_topology device_list))) \<and>
         (\<forall>u v d. get_edge_data (subnet_graph device_list) u v = Some d \<longrightarrow>
            count_list (map pair_of (g_edges (build_topology device_list))) {u, v} = 1 \<and>
            get_edge_data (build_topology device_list) u v = Some d \<and>
            map fst d = [''interface1'', ''interface2'', ''network''])"
proof -
  let ?st = "subnet_pass (add_nodes (initial_state device_list))"
  have si: "subnet_inv ?st" using assms by (rule subnet_pass_inv)
  then have gi: "graph_inv (st_graph ?st)" and sk: "subnet_keys (subnet_graph device_list)"
    by (simp_all add: subnet_inv_def subnet_graph_def)
  have di: "descr_inv ?st (description_pass ?st)"
    using gi by (rule description_pass_inv)
  have bt: "build_topology device_list = st_graph (description_pass ?st)"
    by (simp add: build_topology_def build_topology_state_def)
  from di have inv: "graph_inv (build_topology device_list)"
    and keep: "keeps_edges (subnet_graph device_list) (build_topology device_list)"
    by (simp_all add: descr_inv_def bt subnet_graph_def)
  from inv have ok: "graph_ok (build_topology device_list)"
    and sym: "symmetric (build_topology device_list)"
    and lf: "loop_free (build_topology device_list)"
    by (simp_all add: graph_inv_def)
  have "\<forall>e\<in>set (g_edges (build_topology device_list)). fst e \<noteq> snd e"
    using g_edges_no_loop [OF ok lf] by blast
  moreover have "distinct (map pair_of (g_edges (build_topology device_list)))"
    using ok by (rule g_edges_distinct)
  moreover have "count_list (map pair_of (g_edges (build_topology device_list))) {u, v} = 1 \<and>
            get_edge_data (build_topology device_list) u v = Some d \<and>
            map fst d = [''interface1'', ''interface2'', ''network'']"
    if "get_edge_data (subnet_graph device_list) u v = Some d" for u v d
  proof -
    from that keep have g: "get_edge_data (build_topology device_list) u v = Some d"
      by (simp add: keeps_edges_def)
    from that sk have "map fst d = [''interface1'', ''interface2'', ''network'']"
      by (simp add: subnet_keys_def)
    with g g_edges_count [OF ok sym g] show ?thesis by simp
  qed
  ultimately show ?thesis by blast
qed

section \<open>Nodes and edges are never lost\<close>





















section \<open>The subnet example\<close>

lemma network_10_0_0_1:
  "IPv4Network ''10.0.0.1/255.255.255.252'' =
     Some \<lparr>network_address = 167772160, netmask = 4294967292, prefixlen = 30\<rparr>"
  by code_simp

lemma address_10_0_0_1: "IPv4Address ''10.0.0.1'' = Some 167772161"
  by code_simp

lemma address_10_0_0_2: "IPv4Address ''10.0.0.2'' = Some 167772162"
  by code_simp

lemma network_10_0_0_2:
  "IPv4Network ''10.0.0.2/255.255.255.252'' =
     Some \<lparr>network_address = 167772160, netmask = 4294967292, prefixlen = 30\<rparr>"
  by code_simp

lemma contains_10_0_0_x:
  "contains \<lparr>network_address = 167772160, netmask = 4294967292, prefixlen = 30\<rparr> 167772162"
  "contains \<lparr>network_address = 167772160, netmask = 4294967292, prefixlen = 30\<rparr> 167772161"
  by code_simp+

lemma str_network_10_0_0_0:
  "str_network \<lparr>network_address = 167772160, netmask = 4294967292, prefixlen = 30\<rparr> = ''10.0.0.0/30''"
  by code_simp

lemmas ip_example = network_10_0_0_1 network_10_0_0_2 address_10_0_0_1 address_10_0_0_2
  contains_10_0_0_x str_network_10_0_0_0

lemma two_nodes:
  assumes ne: "dev_hostname A \<noteq> dev_hostname B"
  shows "add_nodes (initial_state [A, B]) =
     \<lparr>st_devices = [A, B],
      st_graph =
        \<lparr>g_node = [(dev_hostname A, [(''type'', NStr (type_name A)), (''device_obj'', NDev A)]),
                   (dev_hostname B, [(''type'', NStr (type_name B)), (''device_obj'', NDev B)])],
         g_adj = [(dev_hostname A, []), (dev_hostname B, [])]\<rparr>,
      st_links_found = 0\<rparr>"
  using ne by (simp add: add_nodes_def initial_state_def add_device_node_def add_node_def
      dict_has_def dict_update_def nx_Graph_def)

lemma subnet_pass_one_way:
  assumes ia: "dev_interfaces A = [(intfA, propsA)]"
    and ipa: "ip_address propsA = Some ''10.0.0.1''"
    and ma: "subnet_mask propsA = Some ''255.255.255.252''"
    and ib: "dev_interfaces B = [(intfB, propsB)]"
    and ipb: "ip_address propsB = Some ''10.0.0.2''"
    and mb: "subnet_mask propsB = None"
    and ds: "st_devices st = [A, B]"
  shows "st_graph (subnet_pass st) =
     add_edge (st_graph st) (dev_hostname A) (dev_hostname B)
       [(''interface1'', intfA), (''interface2'', intfB), (''network'', ''10.0.0.0/30'')]"
  by (simp add: subnet_pass_def ds ia ipa ma ib ipb mb ip_example)


lemma first_edge:
  assumes ne: "hA \<noteq> hB"
  shows "add_edge \<lparr>g_node = [(hA, na), (hB, nb)], g_adj = [(hA, []), (hB, [])]\<rparr> hA hB
           [(''interface1'', a), (''interface2'', b), (''network'', c)] =
     \<lparr>g_node = [(hA, na), (hB, nb)],
      g_adj = [(hA, [(hB, [(''interface1'', a), (''interface2'', b), (''network'', c)])]),
               (hB, [(hA, [(''interface1'', a), (''interface2'', b), (''network'', c)])])]\<rparr>"
  using ne
  by (simp add: add_edge_def touch_node_def dict_has_def dict_get_def dict_update_def Let_def)





lemma linked_graph_edges:
  assumes ne: "hA \<noteq> hB"
  shows "g_edges \<lparr>g_node = ns, g_adj = [(hA, [(hB, d)]), (hB, [(hA, d)])]\<rparr> = [(hA, hB)]"
    and "has_edge \<lparr>g_node = ns, g_adj = [(hA, [(hB, d)]), (hB, [(hA, d)])]\<rparr> hA hB"
    and "has_edge \<lparr>g_node = ns, g_adj = [(hA, [(hB, d)]), (hB, [(hA, d)])]\<rparr> hB hA"
    and "get_edge_data \<lparr>g_node = ns, g_adj = [(hA, [(hB, d)]), (hB, [(hA, d)])]\<rparr> hA hB = Some d"
  using ne by (simp_all add: g_edges_def has_edge_def get_edge_data_def dict_has_def)





lemma example_devices:
  "dev_hostname example_A = ''RA''" "dev_hostname example_B = ''RB''"
  "dev_interfaces example_A =
     [(''Gi0/0'', empty_interface\<lparr>description := Some ''to RB'',
         ip_address := Some ''10.0.0.1'', subnet_mask := Some ''255.255.255.252''\<rparr>)]"
  "dev_interfaces example_B =
     [(''Gi0/1'', empty_interface\<lparr>description := Some ''link to RA'',
         ip_address := Some ''10.0.0.2''\<rparr>)]"
  by (simp_all add: example_A_def example_B_def Router_init_def)




lemma example_subnet_graph:
  "get_edge_data (subnet_graph [example_A, example_B]) ''RA'' ''RB'' =
     Some [(''interface1'', ''Gi0/0''), (''interface2'', ''Gi0/1''), (''network'', ''10.0.0.0/30'')]"
proof -
  have ne: "dev_hostname example_A \<noteq> dev_hostname example_B"
    by (simp add: example_devices)
  have "st_graph (subnet_pass (add_nodes (initial_state [example_A, example_B]))) =
      add_edge (st_graph (add_nodes (initial_state [example_A, example_B])))
        (dev_hostname example_A) (dev_hostname example_B)
        [(''interface1'', ''Gi0/0''), (''interface2'', ''Gi0/1''), (''network'', ''10.0.0.0/30'')]"
    by (rule subnet_pass_one_way [OF example_devices(3) _ _ example_devices(4)])
       (simp_all add: empty_interface_def two_nodes [OF ne])
  moreover have ne2: "''RA'' \<noteq> ''RB''" by simp
  ultimately show ?thesis
    by (simp add: subnet_graph_def two_nodes [OF ne] example_devices first_edge [OF ne2]
        linked_graph_edges(4) [OF ne2])
qed

theorem topology_edges_unique_witness:
  "distinct (map dev_hostname [example_A, example_B]) \<and>
   py_in (py_lower ''RB'') (py_lower ''to RB'') \<and>
   py_in (py_lower ''RA'') (py_lower ''link to RA'') \<and>
   get_edge_data (subnet_graph [example_A, example_B]) ''RA'' ''RB'' =
     Some [(''interface1'', ''Gi0/0''), (''interface2'', ''Gi0/1''), (''network'', ''10.0.0.0/30'')] \<and>
   count_list (map pair_of (g_edges (build_topology [example_A, example_B]))) {''RA'', ''RB''} = 1 \<and>
   get_edge_data (build_topology [example_A, example_B]) ''RA'' ''RB'' =
     Some [(''interface1'', ''Gi0/0''), (''interface2'', ''Gi0/1''), (''network'', ''10.0.0.0/30'')]"
proof -
  have d: "distinct (map dev_hostname [example_A, example_B])"
    by (simp add: example_devices)
  have p: "py_in (py_lower ''RB'') (py_lower ''to RB'')"
    "py_in (py_lower ''RA'') (py_lower ''link to RA'')"
    by (simp_all add: py_lower_def chr_eval)
  from topology_edges_unique [OF d] example_subnet_graph d p show ?thesis
    by blast
qed

section \<open>The router extractor on the examples\<close>

text \<open>
  Claim C1, at the specification's worked example. The extractor finds the hostname
  and the address of \<open>Serial0/0\<close>, but records no routing protocol and no route:
  \<open>re.findall\<close> returns, for the pattern of the OSPF stanzas, the text of its one group,
  the process id \<open>1\<close>, and the search for \<open>router ospf\<close> in that text finds nothing.
\<close>

theorem worked_example_result:
  "parse_router_config worked_example (Router_init ''Unknown'') =
     \<lparr>hostname = ''R1'', vendor = ''Cisco'',
      interfaces =
        [(''Serial0/0'',
          empty_interface\<lparr>ip_address := Some ''10.1.1.1'',
            subnet_mask := Some ''255.255.255.252''\<rparr>)],
      model = ''Unknown'', routing_protocols = [], routes = [], bgp_asn = None,
      ospf_process_id = None\<rparr>"
  by (simp add: parse_router_config_def router_rx_defs re_eval Router_init_def
      static_route_def default_route_def worked_example_def parse_router_interface_def
      router_interface_fields_def parse_ospf_block_def parse_bgp_block_def empty_interface_def
      py_strip_def)

text \<open>
  Claim C2, at the specification's example line. The default route line is matched by
  the pattern of the static routes and again by the pattern of the default routes, and
  each pass appends a route: the line yields two routes, one of type \<open>static\<close> and
  one of type \<open>static_default\<close>.
\<close>

theorem default_route_recorded_twice:
  "routes (parse_router_config ''ip route 0.0.0.0 0.0.0.0 10.1.1.2'' (Router_init ''Unknown'')) =
     [[(''network'', ''0.0.0.0''), (''mask'', ''0.0.0.0''), (''next_hop'', ''10.1.1.2''),
       (''type'', ''static'')],
      [(''network'', ''0.0.0.0''), (''mask'', ''0.0.0.0''), (''next_hop'', ''10.1.1.2''),
       (''type'', ''static_default'')]]"
  by (simp add: parse_router_config_def router_rx_defs re_eval Router_init_def
      static_route_def default_route_def)

section \<open>Hostname and shutdown flag\<close>

lemma fk_lit:
  "first_k f (FR (lit w) # k) (s, G) =
     (if lit_prefix f w s then first_k f k (drop (length w) s, G) else None)"
proof (induction w arbitrary: s)
  case Nil
  then show ?case by (simp add: lit_def fk_Eps)
next
  case (Cons a w)
  have "lit (a # w) = Seq (Atom (Chr a)) (lit w)" by (simp add: lit_def)
  then show ?case
    using Cons.IH by (cases s) (simp_all add: fk_Seq fk_Atom_Nil fk_Atom_Cons)
qed

lemma re_search_leftmost: "re_search f r s = leftmost (match_at f r) s"
  by (induction s) (simp_all cong: option.case_cong)

lemma greedy_star_skip:
  assumes "\<And>c cs G'. amatch f a c \<Longrightarrow> first_k f k (c # cs, G') = None"
  shows "first_k f (FR (Star True (Atom a)) # k) (s, G) =
           first_k f k (dropWhile (amatch f a) s, G)"
proof (induction s)
  case Nil
  then show ?case by (simp add: fk_Star_Nil)
next
  case (Cons c cs)
  show ?case
  proof (cases "amatch f a c")
    case True
    then show ?thesis
      using Cons.IH assms [OF True, of cs G]
      by (simp add: fk_Star_greedy split: option.splits)
  next
    case False
    then show ?thesis by (simp add: fk_Star_greedy)
  qed
qed

lemma greedy_star_first:
  assumes "first_k f k (dropWhile (amatch f a) s, G) = Some x"
  shows "first_k f (FR (Star True (Atom a)) # k) (s, G) = Some x"
  using assms
proof (induction s)
  case Nil
  then show ?case by (simp add: fk_Star_Nil)
next
  case (Cons c cs)
  then show ?case by (cases "amatch f a c") (simp_all add: fk_Star_greedy)
qed

lemma take_length_dropWhile:
  "take (length xs - length (dropWhile P xs)) xs = takeWhile P xs"
proof -
  have "length xs = length (takeWhile P xs) + length (dropWhile P xs)"
    by (metis length_append takeWhile_dropWhile_id)
  then have "length xs - length (dropWhile P xs) = length (takeWhile P xs)" by simp
  then show ?thesis by (simp add: takeWhile_eq_take [symmetric])
qed

lemma run_tail:
  assumes "run f k = run f k'"
  shows "run f (x # k) = run f (x # k')"
proof (rule ext)
  fix st
  show "run f (x # k) st = run f (x # k') st"
    by (cases x) (simp_all add: assms)
qed

lemma run_Seq_fun: "run f (FR (Seq b c) # k) = run f (FR b # FR c # k)"
  by (rule ext) (rule run_Seq)

lemma fk_Seq2:
  "first_k f (x # FR (Seq b c) # k) st = first_k f (x # FR b # FR c # k) st"
  using run_tail [OF run_Seq_fun, of f x b c k] by (simp add: first_k_def)

lemma fk_Seq3:
  "first_k f (x # y # FR (Seq b c) # k) st = first_k f (x # y # FR b # FR c # k) st"
  using run_tail [OF run_tail [OF run_Seq_fun], of f x y b c k] by (simp add: first_k_def)

lemma cat_Nil: "cat [] = Eps"
  by (simp add: cat_def)

lemma cat_Cons: "cat (r # rs) = Seq r (cat rs)"
  by (simp add: cat_def)

lemma fk_token_group:
  "first_k f [FR (Group n token), FR Eps] (r, G) =
     (case next_token r of
        None \<Rightarrow> None
      | Some tok \<Rightarrow> Some (dropWhile (\<lambda>c. \<not> py_isspace c) r, G(n \<mapsto> tok)))"
proof (cases r)
  case Nil
  then show ?thesis
    by (simp add: token_def plus_def fk_Group fk_Seq fk_Atom_Nil next_token_def)
next
  case (Cons c cs)
  show ?thesis
  proof (cases "py_isspace c")
    case True
    then show ?thesis
      by (simp add: Cons token_def plus_def fk_Group fk_Seq fk_Atom_Cons next_token_def)
  next
    case False
    have am: "amatch f NonSpace = (\<lambda>c. \<not> py_isspace c)" by (simp add: fun_eq_iff)
    have "first_k f [FG n r, FR Eps] (dropWhile (amatch f NonSpace) cs, G) =
        Some (dropWhile (amatch f NonSpace) cs,
              G(n \<mapsto> take (length r - length (dropWhile (amatch f NonSpace) cs)) r))"
      by (simp add: fk_FG fk_Eps fk_Nil)
    then have "first_k f [FR (Star True (Atom NonSpace)), FG n r, FR Eps] (cs, G) =
        Some (dropWhile (amatch f NonSpace) cs,
              G(n \<mapsto> take (length r - length (dropWhile (amatch f NonSpace) cs)) r))"
      by (rule greedy_star_first)
    moreover have "take (length r - length (dropWhile (\<lambda>c. \<not> py_isspace c) cs)) r =
        takeWhile (\<lambda>c. \<not> py_isspace c) r"
      using take_length_dropWhile [of r "\<lambda>c. \<not> py_isspace c"] False by (simp add: Cons)
    ultimately show ?thesis
      using False
      by (simp add: Cons token_def plus_def fk_Group fk_Seq fk_Atom_Cons am next_token_def)
  qed
qed

lemma lit_prefix_word:
  assumes "ci \<longrightarrow> (\<forall>a\<in>set w. py_lower_char a = a)"
  shows "lit_prefix \<lparr>ignorecase = ci, dotall = d, multiline = m\<rparr> w s \<longleftrightarrow>
           after_word ci w s \<noteq> None"
  using assms
proof (induction w arbitrary: s)
  case Nil
  then show ?case by (simp add: after_word_def py_lower_def)
next
  case (Cons a w)
  show ?case
  proof (cases s)
    case Nil
    then show ?thesis by (simp add: after_word_def py_lower_def)
  next
    case (Cons c cs)
    have "lit_prefix \<lparr>ignorecase = ci, dotall = d, multiline = m\<rparr> w cs \<longleftrightarrow>
        after_word ci w cs \<noteq> None"
      using Cons.prems by (intro Cons.IH) simp
    then show ?thesis
      using Cons.prems by (auto simp: Cons after_word_def py_lower_def)
  qed
qed

lemma fk_word:
  assumes "ci \<longrightarrow> (\<forall>a\<in>set w. py_lower_char a = a)"
  shows "first_k \<lparr>ignorecase = ci, dotall = d, multiline = m\<rparr> (FR (lit w) # k) (s, G) =
     (case after_word ci w s of
        None \<Rightarrow> None
      | Some rest \<Rightarrow> first_k \<lparr>ignorecase = ci, dotall = d, multiline = m\<rparr> k (rest, G))"
  using lit_prefix_word [OF assms, of d m s]
  by (auto simp: fk_lit after_word_def)

lemma group_mk_match: "group (mk_match s (r, G)) n = (case G n of None \<Rightarrow> [] | Some g \<Rightarrow> g)"
  by (simp add: group_def mk_match_def)

lemma spaces_then_token:
  "first_k f [FR spaces, FR (Group n token), FR Eps] (r, G) =
     (case token_after_spaces r of
        None \<Rightarrow> None
      | Some tok \<Rightarrow>
          Some (dropWhile (\<lambda>c. \<not> py_isspace c) (dropWhile py_isspace r), G(n \<mapsto> tok)))"
proof (cases r)
  case Nil
  then show ?thesis
    by (simp add: spaces_def plus_def fk_Seq fk_Atom_Nil token_after_spaces_def)
next
  case (Cons c cs)
  show ?thesis
  proof (cases "py_isspace c")
    case False
    then show ?thesis
      by (simp add: Cons spaces_def plus_def fk_Seq fk_Atom_Cons token_after_spaces_def)
  next
    case True
    have am: "amatch f Space = py_isspace" by (simp add: fun_eq_iff)
    have "first_k f (FR (Star True (Atom Space)) # [FR (Group n token), FR Eps]) (cs, G) =
        first_k f [FR (Group n token), FR Eps] (dropWhile (amatch f Space) cs, G)"
      by (rule greedy_star_skip) (simp add: fk_token_group next_token_def)
    then show ?thesis
      using True
      by (simp add: Cons spaces_def plus_def fk_Seq fk_Atom_Cons token_after_spaces_def am
          fk_token_group cong: option.case_cong)
  qed
qed

lemma router_hostname_match:
  "map_option (\<lambda>m. group m 1) (match_at IGNORECASE rx_router_hostname s) = hostname_here_ci s"
proof -
  have low: "True \<longrightarrow> (\<forall>a\<in>set ''hostname''. py_lower_char a = a)"
    by (simp add: chr_eval)
  have "first_k IGNORECASE [FR rx_router_hostname] (s, Map.empty) =
      (case after_word True ''hostname'' s of
         None \<Rightarrow> None
       | Some rest \<Rightarrow> first_k IGNORECASE [FR spaces, FR (Group 1 token), FR Eps] (rest, Map.empty))"
    unfolding rx_router_hostname_def cat_Cons cat_Nil fk_Seq fk_Seq2 fk_Seq3 IGNORECASE_def
    by (rule fk_word [OF low])
  then show ?thesis
    unfolding match_at_fk hostname_here_ci_def
    by (simp add: spaces_then_token group_mk_match split: option.splits)
qed

lemma switch_hostname_match:
  "map_option (\<lambda>m. group m 1) (match_at no_flags rx_switch_hostname s) = hostname_here s"
proof -
  have "first_k no_flags [FR rx_switch_hostname] (s, Map.empty) =
      (case after_word False ''hostname '' s of
         None \<Rightarrow> None
       | Some rest \<Rightarrow> first_k no_flags [FR (Group 1 token), FR Eps] (rest, Map.empty))"
    unfolding rx_switch_hostname_def cat_Cons cat_Nil fk_Seq fk_Seq2 no_flags_def
    by (rule fk_word) simp
  then show ?thesis
    unfolding match_at_fk hostname_here_def
    by (simp add: fk_token_group group_mk_match split: option.splits)
qed

lemma map_option_leftmost: "map_option g (leftmost p s) = leftmost (\<lambda>t. map_option g (p t)) s"
  by (induction s) (simp_all split: option.splits)

lemma leftmost_Some: "leftmost p s = Some x \<Longrightarrow> \<exists>t. p t = Some x"
  by (induction s) (auto split: option.splits)

lemma router_hostname_search:
  "map_option (\<lambda>m. group m 1) (re_search IGNORECASE rx_router_hostname s) =
     leftmost hostname_here_ci s"
  unfolding re_search_leftmost map_option_leftmost router_hostname_match ..

lemma switch_hostname_search:
  "map_option (\<lambda>m. group m 1) (re_search no_flags rx_switch_hostname s) =
     leftmost hostname_here s"
  unfolding re_search_leftmost map_option_leftmost switch_hostname_match ..

lemma py_strip_token:
  assumes "\<forall>c\<in>set t. \<not> py_isspace c"
  shows "py_strip t = t"
proof -
  have "dropWhile py_isspace xs = xs" if "\<forall>c\<in>set xs. \<not> py_isspace c" for xs
    using that by (cases xs) simp_all
  from this [of t] this [of "rev t"] assms show ?thesis
    by (simp add: py_strip_def)
qed

lemma next_token_nonspace: "next_token r = Some t \<Longrightarrow> \<forall>c\<in>set t. \<not> py_isspace c"
  by (auto simp: next_token_def Let_def split: if_splits dest: set_takeWhileD)

lemma hostname_here_ci_token:
  assumes "leftmost hostname_here_ci s = Some t"
  shows "py_strip t = t"
proof -
  from assms obtain u where "hostname_here_ci u = Some t" by (auto dest: leftmost_Some)
  then have "\<forall>c\<in>set t. \<not> py_isspace c"
    by (auto simp: hostname_here_ci_def token_after_spaces_def
        split: if_splits option.splits dest: next_token_nonspace)
  then show ?thesis by (rule py_strip_token)
qed

lemma hostname_fold:
  assumes "\<And>x d. hostname (f x d) = hostname d"
  shows "hostname (fold f xs d) = hostname d"
  by (induction xs arbitrary: d) (simp_all add: assms)

lemma hostname_parse_router_interface [simp]:
  "hostname (parse_router_interface block d) = hostname d"
  by (simp add: parse_router_interface_def split: option.splits)

lemma hostname_parse_ospf_block [simp]: "hostname (parse_ospf_block block d) = hostname d"
  by (simp add: parse_ospf_block_def hostname_fold Let_def split: option.splits)

lemma hostname_parse_bgp_block [simp]: "hostname (parse_bgp_block block d) = hostname d"
  by (simp add: parse_bgp_block_def split: option.splits)

lemma hostname_parse_switch_interface [simp]:
  "hostname (parse_switch_interface block d) = hostname d"
  by (simp add: parse_switch_interface_def Let_def split: option.splits)

lemma router_hostname_step:
  "hostname (parse_router_config text d) =
     (case re_search IGNORECASE rx_router_hostname text of
        None \<Rightarrow> hostname d
      | Some m \<Rightarrow> py_strip (group m 1))"
  by (simp add: parse_router_config_def Let_def hostname_fold split: option.splits)

lemma switch_hostname_step:
  "hostname (parse_switch_config text d) =
     (case re_search no_flags rx_switch_hostname text of
        None \<Rightarrow> hostname d
      | Some m \<Rightarrow> group m 1)"
  by (simp add: parse_switch_config_def Let_def hostname_fold split: option.splits)

lemma router_hostname_spec:
  "hostname (parse_router_config text d) =
     (case leftmost hostname_here_ci text of None \<Rightarrow> hostname d | Some t \<Rightarrow> t)"
proof (cases "re_search IGNORECASE rx_router_hostname text")
  case None
  with router_hostname_search [of "text"] have "leftmost hostname_here_ci text = None" by simp
  with None show ?thesis by (simp add: router_hostname_step)
next
  case (Some m)
  with router_hostname_search [of "text"]
  have l: "leftmost hostname_here_ci text = Some (group m 1)" by simp
  then have "py_strip (group m 1) = group m 1" by (rule hostname_here_ci_token)
  with Some l show ?thesis by (simp add: router_hostname_step)
qed

lemma switch_hostname_spec:
  "hostname (parse_switch_config text d) =
     (case leftmost hostname_here text of None \<Rightarrow> hostname d | Some t \<Rightarrow> t)"
proof (cases "re_search no_flags rx_switch_hostname text")
  case None
  with switch_hostname_search [of "text"] have "leftmost hostname_here text = None" by simp
  with None show ?thesis by (simp add: switch_hostname_step)
next
  case (Some m)
  with switch_hostname_search [of "text"]
  have "leftmost hostname_here text = Some (group m 1)" by simp
  with Some show ?thesis by (simp add: switch_hostname_step)
qed

text \<open>
  Claim C6, amended. The router extractor sets the hostname to the token of the
  leftmost match of \<open>hostname\<close> in any case, whitespace and a token; the switch extractor
  sets it to the token of the leftmost match of \<open>hostname\<close> as written, one space and a
  token. Without a match the hostname stays what it was, \<open>Unknown\<close> for a
  default-constructed device.
\<close>

theorem hostname_extraction:
  "hostname (parse_router_config text router_device) =
     (case leftmost hostname_here_ci text of
        None \<Rightarrow> hostname router_device | Some tok \<Rightarrow> tok) \<and>
   hostname (parse_switch_config text switch_device) =
     (case leftmost hostname_here text of
        None \<Rightarrow> hostname switch_device | Some tok \<Rightarrow> tok) \<and>
   hostname (Router_init ''Unknown'') = ''Unknown'' \<and>
   hostname (Switch_init ''Unknown'') = ''Unknown''"
  by (simp add: router_hostname_spec switch_hostname_spec Router_init_def Switch_init_def)

lemma hostname_here_eval:
  "leftmost hostname_here_ci ''HOSTNAME SW1'' = Some ''SW1''"
  "leftmost hostname_here ''HOSTNAME SW1'' = None"
  by (simp_all add: hostname_here_ci_def hostname_here_def after_word_def
      token_after_spaces_def next_token_def py_lower_def chr_eval cong: option.case_cong)

text \<open>
  The claim as stated fails for the switch extractor: in \<open>HOSTNAME SW1\<close> the token
  \<open>SW1\<close> follows a case-insensitive match, the router extractor takes it, the switch
  extractor leaves the default.
\<close>

theorem switch_hostname_counterexample:
  "leftmost hostname_here_ci ''HOSTNAME SW1'' = Some ''SW1'' \<and>
   hostname (parse_router_config ''HOSTNAME SW1'' (Router_init ''Unknown'')) = ''SW1'' \<and>
   hostname (parse_switch_config ''HOSTNAME SW1'' (Switch_init ''Unknown'')) = ''Unknown''"
  unfolding router_hostname_spec switch_hostname_spec hostname_here_eval
  by (simp add: Router_init_def Switch_init_def)





















section \<open>The shutdown flag\<close>












text \<open>
  How far a block reaches is another matter. The pattern of the router extractor ends
  a block at a \<open>!\<close> only when nothing but whitespace follows to the end of the text, so
  the block of an interface can run on into the lines after its stanza, as it does in
  \<open>overrun_example\<close>: the \<open>shutdown\<close> of the \<open>line vty\<close> stanza sets the flag of
  \<open>Gi0/0\<close>.
\<close>

lemma router_block_overrun:
  "router_blocks overrun_example =
     [''interface Gi0/0\<newline>!\<newline>line vty 0\<newline> shutdown\<newline>'']"
  "map_option shutdown (map_of (interfaces
      (parse_router_config overrun_example (Router_init ''Unknown''))) ''Gi0/0'') = Some True"
  by (simp_all add: router_blocks_def parse_router_config_def router_rx_defs re_eval
      Router_init_def static_route_def default_route_def overrun_example_def
      parse_router_interface_def router_interface_fields_def parse_ospf_block_def
      parse_bgp_block_def empty_interface_def py_strip_def)

end
